theory Spec2Isabelle
  imports Complex_Main "HOL-Library.Multiset" "HOL-Library.Sublist" "HOL-Library.Product_Lexorder"
begin

section \<open>JavaScript values used by the roster generator\<close>

text \<open>
  The component \<^verbatim>\<open>src/components/DeadballRosterGenerator.js\<close> works on rows produced by
  the CSV parser with \<^verbatim>\<open>header: true\<close>: every row is an object whose properties are
  strings, and a column that the file does not have reads as \<^verbatim>\<open>undefined\<close>. A property
  value is therefore a \<open>string option\<close> (\<open>None\<close> is \<^verbatim>\<open>undefined\<close>) and a row a map from
  column names to strings.

  Numbers. A JavaScript number is a binary64 float: \<open>NaN\<close>, an infinity, or a finite
  number, which is a rational. Every operation that makes a number (reading a decimal
  text or literal, a product, a quotient, a sum, a difference) rounds the exact result to
  binary64 with \<open>round64\<close>: to the nearest representable number, ties to the even
  significand, to an infinity beyond the largest number and to zero from half of the
  smallest one down. The sign of zero is the one thing left out (the program never observes it:
  it divides only by numbers it has tested to be positive).

  Strings are lists of 8-bit code units; a code unit above 255 has no counterpart.
\<close>

datatype jsnum = NaN | NegInf | Fin rat | PosInf

subsection \<open>Rounding to binary64\<close>

text \<open>
  \<open>ilog2 n\<close> is the position of the highest bit of \<open>n\<close>, and \<open>pow2 e\<close> is the power of two
  with the integer exponent \<open>e\<close>.
\<close>

fun ilog2 :: "nat \<Rightarrow> nat" where
  "ilog2 n = (if n < 2 then 0 else Suc (ilog2 (n div 2)))"

declare ilog2.simps [simp del]

definition pow2 :: "int \<Rightarrow> rat" where
  "pow2 e = 2 powi e"

text \<open>
  The binary exponent of a positive rational \<open>a\<close>, that is the \<open>e\<close> with
  \<open>pow2 e \<le> a < pow2 (e + 1)\<close>: the bit lengths of numerator and denominator give it up
  to one (lemmas \<open>exponentOf_bounds\<close> and \<open>exponentOf_unique\<close> below).
\<close>

definition exponentOf :: "rat \<Rightarrow> int" where
  "exponentOf a =
     (let k = int (ilog2 (nat (fst (quotient_of a)))) - int (ilog2 (nat (snd (quotient_of a))))
      in if pow2 k \<le> a then k else k - 1)"

definition roundHalfEven :: "rat \<Rightarrow> int" where
  "roundHalfEven x =
     (let f = \<lfloor>x\<rfloor>; r = x - of_int f
      in if r < 1 / 2 then f else if 1 / 2 < r then f + 1 else if even f then f else f + 1)"

text \<open>
  A binary64 number has a significand of 53 bits and an exponent from \<open>-1022\<close> to \<open>1023\<close>;
  below \<open>pow2 (-1022)\<close> the numbers are the multiples of \<open>pow2 (-1074)\<close>. So the unit in
  the last place of \<open>a\<close> is \<open>pow2 u\<close> with \<open>u\<close> as below, \<open>a\<close> rounds to the nearest multiple
  of it, and a result of \<open>pow2 1024\<close> or more is an infinity.
\<close>

definition round64 :: "rat \<Rightarrow> jsnum" where
  "round64 q =
     (if q = 0 then Fin 0
      else
        (let a = \<bar>q\<bar>;
             u = max (exponentOf a) (- 1022) - 52;
             v = of_int (roundHalfEven (a / pow2 u)) * pow2 u
         in if pow2 1024 \<le> v then (if q < 0 then NegInf else PosInf)
            else Fin (if q < 0 then - v else v)))"

type_synonym jsval = "string option"

type_synonym row = "string \<rightharpoonup> string"

text \<open>The relational operators of the language: every comparison with \<open>NaN\<close> is false.\<close>

fun lt :: "jsnum \<Rightarrow> jsnum \<Rightarrow> bool" where
  "lt (Fin a) (Fin b) = (a < b)"
| "lt NegInf (Fin b) = True"
| "lt NegInf PosInf = True"
| "lt (Fin a) PosInf = True"
| "lt _ _ = False"

definition gt :: "jsnum \<Rightarrow> jsnum \<Rightarrow> bool" where
  "gt a b = lt b a"

definition le :: "jsnum \<Rightarrow> jsnum \<Rightarrow> bool" where
  "le a b = (a \<noteq> NaN \<and> b \<noteq> NaN \<and> \<not> lt b a)"

definition ge :: "jsnum \<Rightarrow> jsnum \<Rightarrow> bool" where
  "ge a b = le b a"

text \<open>\<^verbatim>\<open>a === b\<close> on numbers.\<close>

definition seq :: "jsnum \<Rightarrow> jsnum \<Rightarrow> bool" where
  "seq a b = (a \<noteq> NaN \<and> a = b)"

definition isNaN :: "jsnum \<Rightarrow> bool" where
  "isNaN a = (a = NaN)"

text \<open>\<^verbatim>\<open>x || 0\<close> on a number: \<open>NaN\<close> and zero are falsy.\<close>

definition or0 :: "jsnum \<Rightarrow> jsnum" where
  "or0 x = (if x = NaN \<or> x = Fin 0 then Fin 0 else x)"

fun sgn_of :: "jsnum \<Rightarrow> int" where
  "sgn_of (Fin a) = (if a < 0 then - 1 else if a = 0 then 0 else 1)"
| "sgn_of PosInf = 1"
| "sgn_of NegInf = - 1"
| "sgn_of NaN = 0"

definition inf_of :: "int \<Rightarrow> jsnum" where
  "inf_of s = (if s < 0 then NegInf else if s = 0 then NaN else PosInf)"

fun mul :: "jsnum \<Rightarrow> jsnum \<Rightarrow> jsnum" where
  "mul NaN _ = NaN"
| "mul _ NaN = NaN"
| "mul (Fin a) (Fin b) = round64 (a * b)"
| "mul a b = inf_of (sgn_of a * sgn_of b)"

text \<open>
  Division. Zero has no sign in the model, so a finite non-zero number divided by zero is
  given the sign of the numerator; the program only divides behind a test that the
  divisor is positive.
\<close>

fun divide :: "jsnum \<Rightarrow> jsnum \<Rightarrow> jsnum" where
  "divide NaN _ = NaN"
| "divide _ NaN = NaN"
| "divide (Fin a) (Fin b) = (if b = 0 then inf_of (sgn_of (Fin a)) else round64 (a / b))"
| "divide (Fin a) _ = Fin 0"
| "divide a (Fin b) = inf_of (sgn_of a * (if b < 0 then - 1 else 1))"
| "divide _ _ = NaN"

fun sub :: "jsnum \<Rightarrow> jsnum \<Rightarrow> jsnum" where
  "sub NaN _ = NaN"
| "sub _ NaN = NaN"
| "sub (Fin a) (Fin b) = round64 (a - b)"
| "sub (Fin a) PosInf = NegInf"
| "sub (Fin a) NegInf = PosInf"
| "sub PosInf PosInf = NaN"
| "sub NegInf NegInf = NaN"
| "sub PosInf _ = PosInf"
| "sub NegInf _ = NegInf"

fun add :: "jsnum \<Rightarrow> jsnum \<Rightarrow> jsnum" where
  "add NaN _ = NaN"
| "add _ NaN = NaN"
| "add (Fin a) (Fin b) = round64 (a + b)"
| "add (Fin a) b = b"
| "add PosInf NegInf = NaN"
| "add NegInf PosInf = NaN"
| "add a _ = a"

text \<open>
  \<^verbatim>\<open>Math.round\<close> rounds half up and \<^verbatim>\<open>Math.floor\<close> rounds down; the integer they give for
  a binary64 number is a binary64 number.
\<close>

fun Math_round :: "jsnum \<Rightarrow> jsnum" where
  "Math_round (Fin a) = Fin (of_int \<lfloor>a + 1 / 2\<rfloor>)"
| "Math_round x = x"

fun Math_floor :: "jsnum \<Rightarrow> jsnum" where
  "Math_floor (Fin a) = Fin (of_int \<lfloor>a\<rfloor>)"
| "Math_floor x = x"

subsection \<open>Strings\<close>

text \<open>\<^verbatim>\<open>!x\<close> on a property value: \<^verbatim>\<open>undefined\<close> and the empty string are falsy.\<close>

definition falsy :: "jsval \<Rightarrow> bool" where
  "falsy v = (v = None \<or> v = Some [])"

definition ToString :: "jsval \<Rightarrow> string" where
  "ToString v = (case v of None \<Rightarrow> ''undefined'' | Some s \<Rightarrow> s)"

text \<open>\<^verbatim>\<open>s.includes(t)\<close>: \<open>t\<close> occurs in \<open>s\<close> as a contiguous run.\<close>

fun str_includes :: "string \<Rightarrow> string \<Rightarrow> bool" where
  "str_includes [] t = (t = [])"
| "str_includes (c # cs) t = (prefix t (c # cs) \<or> str_includes cs t)"

text \<open>\<^verbatim>\<open>s.endsWith(c)\<close> for a one-character \<open>c\<close>.\<close>

definition endsWith :: "string \<Rightarrow> char \<Rightarrow> bool" where
  "endsWith s c = (s \<noteq> [] \<and> last s = c)"

text \<open>\<^verbatim>\<open>xs.join(sep)\<close> on an array of strings.\<close>

fun join :: "string \<Rightarrow> string list \<Rightarrow> string" where
  "join sep [] = []"
| "join sep [x] = x"
| "join sep (x # y # ys) = x @ sep @ join sep (y # ys)"

subsection \<open>\<^verbatim>\<open>parseInt\<close> and \<^verbatim>\<open>parseFloat\<close>\<close>

text \<open>
  Both functions convert their argument to a string (\<^verbatim>\<open>undefined\<close> becomes the text
  \<^verbatim>\<open>"undefined"\<close>), drop leading white space and read the longest prefix that is a
  number; they return \<open>NaN\<close> when that prefix is empty, and otherwise the binary64 number
  nearest to the value of the prefix.
\<close>

definition isWhiteSpace :: "char \<Rightarrow> bool" where
  "isWhiteSpace c = (of_char c \<in> {9, 10, 11, 12, 13, 32, 160 :: nat})"

definition trimStart :: "string \<Rightarrow> string" where
  "trimStart s = dropWhile isWhiteSpace s"

definition isDigit :: "char \<Rightarrow> bool" where
  "isDigit c = (c \<in> set ''0123456789'')"

definition isHexDigit :: "char \<Rightarrow> bool" where
  "isHexDigit c = (c \<in> set ''0123456789abcdefABCDEF'')"

definition digitValue :: "char \<Rightarrow> nat" where
  "digitValue c =
     (if isDigit c then of_char c - 48
      else if c \<in> set ''abcdef'' then of_char c - 87
      else of_char c - 55)"

definition radixValue :: "nat \<Rightarrow> string \<Rightarrow> nat" where
  "radixValue R Z = foldl (\<lambda>n c. n * R + digitValue c) 0 Z"

definition signOf :: "string \<Rightarrow> rat" where
  "signOf S = (case S of c # _ \<Rightarrow> if c = CHR ''-'' then - 1 else 1 | [] \<Rightarrow> 1)"

definition dropSign :: "string \<Rightarrow> string" where
  "dropSign S = (case S of c # t \<Rightarrow> if c = CHR ''+'' \<or> c = CHR ''-'' then t else S | [] \<Rightarrow> S)"

definition parseInt :: "jsval \<Rightarrow> jsnum" where
  "parseInt v =
     (let S0 = trimStart (ToString v);
          sign = signOf S0;
          S1 = dropSign S0;
          hex = (take 2 S1 = ''0x'' \<or> take 2 S1 = ''0X'');
          S2 = (if hex then drop 2 S1 else S1);
          Z = takeWhile (if hex then isHexDigit else isDigit) S2
      in if Z = [] then NaN
         else round64 (sign * of_nat (radixValue (if hex then 16 else 10) Z)))"

definition pow10 :: "int \<Rightarrow> rat" where
  "pow10 e = (if 0 \<le> e then 10 ^ nat e else 1 / 10 ^ nat (- e))"

text \<open>The exponent part \<^verbatim>\<open>e[+-]digits\<close>; it counts only when it has a digit.\<close>

definition exponentPart :: "string \<Rightarrow> int" where
  "exponentPart r =
     (case r of
        [] \<Rightarrow> 0
      | c # t \<Rightarrow>
          if c = CHR ''e'' \<or> c = CHR ''E'' then
            (let ds = takeWhile isDigit (dropSign t)
             in if ds = [] then 0
                else (if signOf t < 0 then - 1 else 1) * int (radixValue 10 ds))
          else 0)"

definition parseFloat :: "jsval \<Rightarrow> jsnum" where
  "parseFloat v =
     (let S0 = trimStart (ToString v);
          sign = signOf S0;
          S1 = dropSign S0
      in if prefix ''Infinity'' S1 then (if sign < 0 then NegInf else PosInf)
         else
           (let ip = takeWhile isDigit S1;
                r1 = dropWhile isDigit S1;
                dot = (r1 \<noteq> [] \<and> hd r1 = CHR ''.'');
                fp = (if dot then takeWhile isDigit (tl r1) else []);
                r2 = (if dot then dropWhile isDigit (tl r1) else r1)
            in if ip = [] \<and> fp = [] then NaN
               else round64 (sign * of_nat (radixValue 10 (ip @ fp))
                               * pow10 (exponentPart r2 - int (length fp)))))"

section \<open>Rating converters\<close>

text \<open>\<^verbatim>\<open>calcBT\<close> and \<^verbatim>\<open>calcOBT\<close>: a rate times 100, rounded; 0 when it does not parse.\<close>

definition calcBT :: "jsval \<Rightarrow> jsnum" where
  "calcBT avg = (let bt = Math_round (mul (parseFloat avg) (Fin 100)) in if isNaN bt then Fin 0 else bt)"

definition calcOBT :: "jsval \<Rightarrow> jsnum" where
  "calcOBT obp = (let obt = Math_round (mul (parseFloat obp) (Fin 100)) in if isNaN obt then Fin 0 else obt)"

text \<open>\<^verbatim>\<open>calcPD\<close>: the pitch die of an earned run average.\<close>

definition calcPD :: "jsval \<Rightarrow> string" where
  "calcPD era =
     (if isNaN (parseFloat era) then ''d4''
      else
        (let eraNum = parseFloat era
         in if lt eraNum (Fin 2) then ''d20''
            else if lt eraNum (Fin 3) then ''d12''
            else if lt eraNum (Fin 4) then ''d8''
            else if lt eraNum (Fin 5) then ''d4''
            else if lt eraNum (Fin 6) then ''-d4''
            else if lt eraNum (Fin 7) then ''-d8''
            else if lt eraNum (Fin 8) then ''-d12''
            else ''-d20''))"

section \<open>Names, handedness, position\<close>

text \<open>\<^verbatim>\<open>getHandedness\<close>: a trailing \<^verbatim>\<open>*\<close> is a left-hander, a trailing \<^verbatim>\<open>#\<close> a switch hitter.\<close>

definition getHandedness :: "jsval \<Rightarrow> string" where
  "getHandedness name =
     (if falsy name then ''R''
      else if endsWith (the name) (CHR ''*'') then ''L''
      else if endsWith (the name) (CHR ''#'') then ''S''
      else ''R'')"

text \<open>\<^verbatim>\<open>cleanName\<close>: \<^verbatim>\<open>name.replace(/[*#]$/, '')\<close> drops one such character at the end.\<close>

definition cleanName :: "jsval \<Rightarrow> string" where
  "cleanName name =
     (if falsy name then []
      else if endsWith (the name) (CHR ''*'') \<or> endsWith (the name) (CHR ''#'')
      then butlast (the name)
      else the name)"

text \<open>\<^verbatim>\<open>getPosition\<close>: the first code, in this order, that occurs in the position text.\<close>

definition getPosition :: "jsval \<Rightarrow> string" where
  "getPosition posStr =
     (if falsy posStr then ''UT''
      else if str_includes (the posStr) ''C'' then ''C''
      else if str_includes (the posStr) ''1B'' then ''1B''
      else if str_includes (the posStr) ''2B'' then ''2B''
      else if str_includes (the posStr) ''3B'' then ''3B''
      else if str_includes (the posStr) ''SS'' then ''SS''
      else if str_includes (the posStr) ''LF'' then ''LF''
      else if str_includes (the posStr) ''CF'' then ''CF''
      else if str_includes (the posStr) ''RF'' then ''RF''
      else if str_includes (the posStr) ''OF'' then ''OF''
      else if str_includes (the posStr) ''DH'' then ''DH''
      else ''UT'')"

section \<open>Trait inference\<close>

text \<open>
  Both functions start from an empty array, push at most one tag in each block and join
  the array with a space. The array after each block is \<open>t1\<close>, \<open>t2\<close>, \<open>t3\<close>, \<open>t4\<close>. A
  decimal literal is the binary64 number nearest to it: \<open>round64\<close> of its value, or the
  value itself where binary64 holds it exactly (the integers, \<open>0.25\<close>, \<open>0.5\<close>, \<open>1.5\<close>, \<open>3.5\<close>).
\<close>

definition calcBattingTraits :: "row \<Rightarrow> string" where
  "calcBattingTraits player =
     (let hr = or0 (parseInt (player ''HR''));
          slg = or0 (parseFloat (player ''SLG''));
          t1 = (if ge hr (Fin 35) \<or> ge slg (round64 (560 / 1000)) then [''P++'']
                else if ge hr (Fin 25) \<or> ge slg (round64 (475 / 1000)) then [''P+'']
                else if le hr (Fin 5) then [''P-'']
                else []);
          doubles = or0 (parseInt (player ''2B''));
          pa = or0 (parseInt (player ''PA''));
          kRate = (if gt pa (Fin 0) then divide (or0 (parseInt (player ''SO''))) pa else Fin 0);
          t2 = (if ge doubles (Fin 35) \<or> lt kRate (round64 (12 / 100)) then t1 @ [''C+'']
                else if gt kRate (Fin (25 / 100)) then t1 @ [''C-'']
                else t1);
          sb = or0 (parseInt (player ''SB''));
          t3 = (if ge sb (Fin 20) then t2 @ [''S+'']
                else if seq sb (Fin 0) then t2 @ [''S-'']
                else t2);
          pos = (if falsy (player ''Pos'') then [] else the (player ''Pos''));
          t4 = (if str_includes pos ''C'' \<or> str_includes pos ''SS'' \<or> str_includes pos ''CF''
                then (if gt (parseFloat (player ''WAR'')) (Fin (15 / 10)) then t3 @ [''D+''] else t3)
                else t3)
      in join '' '' t4)"

definition calcPitchingTraits :: "row \<Rightarrow> string" where
  "calcPitchingTraits player =
     (let ip = or0 (parseFloat (player ''IP''));
          so = or0 (parseInt (player ''SO''));
          kRate = (if gt ip (Fin 0) then divide (mul so (Fin 9)) ip else Fin 0);
          t1 = (if ge kRate (Fin 8) then [''K+''] else []);
          hr = or0 (parseInt (player ''HR''));
          hr9 = (if gt ip (Fin 0) then divide (mul hr (Fin 9)) ip else Fin 0);
          era = or0 (parseFloat (player ''ERA''));
          t2 = (if lt hr9 (round64 (7 / 10)) \<and> lt era (Fin (35 / 10)) then t1 @ [''GB+''] else t1);
          bb = or0 (parseInt (player ''BB''));
          bbRate = (if gt ip (Fin 0) then divide (mul bb (Fin 9)) ip else Fin 0);
          t3 = (if lt bbRate (Fin 2) then t2 @ [''CN+'']
                else if gt bbRate (Fin 4) then t2 @ [''CN-'']
                else t2);
          t4 = (if gt ip (Fin 170) then t3 @ [''ST+''] else t3)
      in join '' '' t4)"

section \<open>Player records\<close>

text \<open>
  The objects pushed on \<^verbatim>\<open>processedBatters\<close> and \<^verbatim>\<open>processedPitchers\<close>. The assembler
  compares batters by object identity (\<^verbatim>\<open>p !== utility\<close>), so a record carries the identity
  of its object: \<open>oid\<close> is the index at which the object was pushed. The copy
  \<^verbatim>\<open>{...utility, position: pos}\<close> keeps every property but \<open>position\<close>, and so keeps the
  \<open>oid\<close> of the object it was copied from.
\<close>

record batter =
  oid :: nat
  name :: string
  position :: string
  handedness :: string
  bt :: jsnum
  obt :: jsnum
  traits :: string
  games :: jsnum
  war :: jsnum

record pitcher =
  oidP :: nat
  nameP :: string
  handednessP :: string
  pd :: string
  btP :: jsnum
  obtP :: jsnum
  traitsP :: string
  gamesP :: jsnum
  starts :: jsnum
  ip :: jsnum

text \<open>
  The placeholders pushed by the padding loops have six properties and were never in a
  pool; a roster list holds both kinds of object.
\<close>

datatype position_player =
  Batter batter
| BenchDummy (dname: string) (dposition: string) (dhandedness: string)
    (dbt: jsnum) (dobt: jsnum) (dtraits: string)

datatype roster_pitcher =
  Pitcher pitcher
| PitcherDummy (qname: string) (qpd: string) (qhandedness: string)
    (qbt: jsnum) (qobt: jsnum) (qtraits: string)

record roster =
  positionPlayers :: "position_player list"
  startingPitchers :: "roster_pitcher list"
  reliefPitchers :: "roster_pitcher list"

section \<open>Player normalizer\<close>

text \<open>The test before \<^verbatim>\<open>continue\<close> in the batting loop and in the pitching loop.\<close>

definition skipBatter :: "row \<Rightarrow> bool" where
  "skipBatter player =
     (falsy (player ''Player'') \<or> falsy (player ''BA'')
      \<or> \<not> (gt (parseInt (player ''PA'')) (Fin 0) \<or> gt (parseInt (player ''G'')) (Fin 0)))"

definition skipPitcher :: "row \<Rightarrow> bool" where
  "skipPitcher player =
     (falsy (player ''Player'') \<or> falsy (player ''ERA'')
      \<or> \<not> gt (parseFloat (player ''IP'')) (Fin 0))"

definition mkBatter :: "nat \<Rightarrow> row \<Rightarrow> batter" where
  "mkBatter i player =
     \<lparr> oid = i,
       name = cleanName (player ''Player''),
       position = getPosition (player ''Pos''),
       handedness = getHandedness (player ''Player''),
       bt = calcBT (player ''BA''),
       obt = calcOBT (player ''OBP''),
       traits = calcBattingTraits player,
       games = or0 (parseInt (player ''G'')),
       war = or0 (parseFloat (player ''WAR'')) \<rparr>"

fun processBatters_loop :: "row list \<Rightarrow> batter list \<Rightarrow> batter list" where
  "processBatters_loop [] processedBatters = processedBatters"
| "processBatters_loop (player # rest) processedBatters =
     (if skipBatter player then processBatters_loop rest processedBatters
      else processBatters_loop rest
             (processedBatters @ [mkBatter (length processedBatters) player]))"

text \<open>
  \<^verbatim>\<open>Math.random()\<close> is the function \<open>random\<close> from the number of the call (counted from 0
  within one generation) to its result in \<open>[0, 1)\<close>. Each accepted pitcher makes two
  calls, the first for \<open>bt\<close> and the second for \<open>obt\<close>.
\<close>

definition mkPitcher :: "(nat \<Rightarrow> rat) \<Rightarrow> nat \<Rightarrow> row \<Rightarrow> pitcher" where
  "mkPitcher random i player =
     \<lparr> oidP = i,
       nameP = cleanName (player ''Player''),
       handednessP = getHandedness (player ''Player''),
       pd = calcPD (player ''ERA''),
       btP = add (Math_floor (mul (Fin (random (2 * i))) (Fin 10))) (Fin 10),
       obtP = add (Math_floor (mul (Fin (random (2 * i + 1))) (Fin 10))) (Fin 15),
       traitsP = calcPitchingTraits player,
       gamesP = or0 (parseInt (player ''G'')),
       starts = or0 (parseInt (player ''GS'')),
       ip = or0 (parseFloat (player ''IP'')) \<rparr>"

fun processPitchers_loop :: "(nat \<Rightarrow> rat) \<Rightarrow> row list \<Rightarrow> pitcher list \<Rightarrow> pitcher list" where
  "processPitchers_loop random [] processedPitchers = processedPitchers"
| "processPitchers_loop random (player # rest) processedPitchers =
     (if skipPitcher player then processPitchers_loop random rest processedPitchers
      else processPitchers_loop random rest
             (processedPitchers @ [mkPitcher random (length processedPitchers) player]))"

section \<open>Roster assembler\<close>

subsection \<open>\<^verbatim>\<open>Array.prototype.sort\<close> with a comparison function\<close>

text \<open>
  The language requires the sort to be stable, and treats a comparison result \<open>NaN\<close> as
  0. It leaves the algorithm open; \<open>sort_cmp\<close> is the insertion sort, which puts \<open>x\<close>
  after \<open>y\<close> only when \<^verbatim>\<open>cmp(x, y) > 0\<close>. For the two comparison functions of the program
  the choice does not matter: a list that is a stable descending sort of the input is this
  list (lemma \<open>stableDescending_unique\<close> below).
\<close>

fun insort_cmp :: "('a \<Rightarrow> 'a \<Rightarrow> jsnum) \<Rightarrow> 'a \<Rightarrow> 'a list \<Rightarrow> 'a list" where
  "insort_cmp cmp x [] = [x]"
| "insort_cmp cmp x (y # ys) =
     (if gt (cmp x y) (Fin 0) then y # insort_cmp cmp x ys else x # y # ys)"

definition sort_cmp :: "('a \<Rightarrow> 'a \<Rightarrow> jsnum) \<Rightarrow> 'a list \<Rightarrow> 'a list" where
  "sort_cmp cmp xs = foldr (insort_cmp cmp) xs []"

text \<open>\<^verbatim>\<open>(a, b) => b.war - a.war\<close> and \<^verbatim>\<open>(a, b) => b.ip - a.ip\<close>.\<close>

definition byWar :: "batter \<Rightarrow> batter \<Rightarrow> jsnum" where
  "byWar a b = sub (war b) (war a)"

definition byIp :: "pitcher \<Rightarrow> pitcher \<Rightarrow> jsnum" where
  "byIp a b = sub (ip b) (ip a)"

subsection \<open>Starters and relievers\<close>

text \<open>The predicate of the first \<^verbatim>\<open>filter\<close>; the second one is its negation.\<close>

definition isStarter :: "pitcher \<Rightarrow> bool" where
  "isStarter p =
     (gt (starts p) (Fin 5)
      \<or> (gt (gamesP p) (Fin 0) \<and> gt (divide (starts p) (gamesP p)) (Fin (5 / 10))))"

definition startersOf :: "pitcher list \<Rightarrow> pitcher list" where
  "startersOf processedPitchers =
     take 5 (sort_cmp byIp (filter isStarter processedPitchers))"

definition relieversOf :: "pitcher list \<Rightarrow> pitcher list" where
  "relieversOf processedPitchers =
     take 7 (sort_cmp byIp (filter (\<lambda>p. \<not> isStarter p) processedPitchers))"

subsection \<open>The lineup\<close>

definition positions :: "string list" where
  "positions = [''C'', ''1B'', ''2B'', ''3B'', ''SS'', ''LF'', ''CF'', ''RF'']"

definition isUtility :: "batter \<Rightarrow> bool" where
  "isUtility p = (position p = ''UT'' \<or> position p = ''OF'' \<or> position p = ''DH'')"

text \<open>
  One round of the loop over \<open>positions\<close>, on the pair of \<^verbatim>\<open>lineup\<close> and
  \<^verbatim>\<open>remainingBatters\<close>. \<^verbatim>\<open>p !== x\<close> compares objects, that is their \<open>oid\<close>.
\<close>

definition fillSlot :: "string \<Rightarrow> batter list \<times> batter list \<Rightarrow> batter list \<times> batter list" where
  "fillSlot pos st =
     (let lineup = fst st; remainingBatters = snd st;
          positionPlayers = filter (\<lambda>p. position p = pos) remainingBatters
      in case positionPlayers of
           first # _ \<Rightarrow>
             (lineup @ [first], filter (\<lambda>p. oid p \<noteq> oid first) remainingBatters)
         | [] \<Rightarrow>
             (case find isUtility remainingBatters of
                Some utility \<Rightarrow>
                  (lineup @ [utility\<lparr>position := pos\<rparr>],
                   filter (\<lambda>p. oid p \<noteq> oid utility) remainingBatters)
              | None \<Rightarrow>
                  (case remainingBatters of
                     best # others \<Rightarrow> (lineup @ [best\<lparr>position := pos\<rparr>], others)
                   | [] \<Rightarrow> (lineup, remainingBatters))))"

definition fillLineup :: "string list \<Rightarrow> batter list \<Rightarrow> batter list \<times> batter list" where
  "fillLineup ps processedBatters = foldl (\<lambda>st pos. fillSlot pos st) ([], processedBatters) ps"

subsection \<open>Padding\<close>

text \<open>\<^verbatim>\<open>String(n)\<close> for a natural number, as the template strings need it.\<close>

fun showNat :: "nat \<Rightarrow> string" where
  "showNat n =
     (if n < 10 then [''0123456789'' ! n]
      else showNat (n div 10) @ [''0123456789'' ! (n mod 10)])"

declare showNat.simps [simp del]

function padBench :: "position_player list \<Rightarrow> position_player list" where
  "padBench finalBench =
     (if length finalBench < 4
      then padBench (finalBench @
             [BenchDummy (''Bench Player '' @ showNat (length finalBench + 1))
                ''UT'' ''R'' (Fin 20) (Fin 25) []])
      else finalBench)"
  by pat_completeness auto
termination
  by (relation "measure (\<lambda>fb. 4 - length fb)") auto

declare padBench.simps [simp del]

function padStarters :: "roster_pitcher list \<Rightarrow> roster_pitcher list" where
  "padStarters finalStarters =
     (if length finalStarters < 5
      then padStarters (finalStarters @
             [PitcherDummy (''Starting Pitcher '' @ showNat (length finalStarters + 1))
                ''d4'' ''R'' (Fin 15) (Fin 20) []])
      else finalStarters)"
  by pat_completeness auto
termination
  by (relation "measure (\<lambda>fs. 5 - length fs)") auto

declare padStarters.simps [simp del]

function padRelievers :: "roster_pitcher list \<Rightarrow> roster_pitcher list" where
  "padRelievers finalRelievers =
     (if length finalRelievers < 7
      then padRelievers (finalRelievers @
             [PitcherDummy (''Relief Pitcher '' @ showNat (length finalRelievers + 1))
                ''d4'' ''R'' (Fin 12) (Fin 18) []])
      else finalRelievers)"
  by pat_completeness auto
termination
  by (relation "measure (\<lambda>fr. 7 - length fr)") auto

declare padRelievers.simps [simp del]

subsection \<open>\<^verbatim>\<open>generateRoster\<close>\<close>

text \<open>
  The state of the component that the handler reads and writes, and the messages it has
  shown with \<^verbatim>\<open>alert\<close>. \<open>None\<close> is the initial \<^verbatim>\<open>null\<close> of a statistics variable.
\<close>

record state =
  battingStats :: "row list option"
  pitchingStats :: "row list option"
  roster :: roster
  isGenerating :: bool
  alerts :: "string list"

definition inputMissing :: "'a state_scheme \<Rightarrow> bool" where
  "inputMissing s =
     (battingStats s = None \<or> pitchingStats s = None
      \<or> length (the (battingStats s)) = 0 \<or> length (the (pitchingStats s)) = 0)"

text \<open>The body of the \<^verbatim>\<open>try\<close> block up to \<^verbatim>\<open>setRoster\<close>: the roster it builds.\<close>

definition assemble :: "(nat \<Rightarrow> rat) \<Rightarrow> row list \<Rightarrow> row list \<Rightarrow> roster" where
  "assemble random battingRows pitchingRows =
     (let processedBatters = sort_cmp byWar (processBatters_loop battingRows []);
          processedPitchers = processPitchers_loop random pitchingRows [];
          starters = startersOf processedPitchers;
          relievers = relieversOf processedPitchers;
          filled = fillLineup positions processedBatters;
          lineup = fst filled;
          remainingBatters = snd filled;
          bench = take 4 remainingBatters;
          finalBench = padBench (map Batter bench);
          finalStarters = padStarters (map Pitcher starters);
          finalRelievers = padRelievers (map Pitcher relievers)
      in \<lparr> positionPlayers = map Batter lineup @ finalBench,
           startingPitchers = finalStarters,
           reliefPitchers = finalRelievers \<rparr>)"

text \<open>
  No statement of the \<^verbatim>\<open>try\<close> block can throw on rows of strings (every index read is
  behind a length test and every method is called on a string), so the \<^verbatim>\<open>catch\<close>
  branch has no counterpart; \<^verbatim>\<open>finally\<close> resets \<open>isGenerating\<close>.
\<close>

definition generateRoster :: "(nat \<Rightarrow> rat) \<Rightarrow> state \<Rightarrow> state" where
  "generateRoster random s =
     (if inputMissing s
      then s\<lparr>alerts := alerts s @
               [''Please upload both batting and pitching stats files with valid data.'']\<rparr>
      else s\<lparr>roster := assemble random (the (battingStats s)) (the (pitchingStats s)),
             isGenerating := False\<rparr>)"

section \<open>The specification's notions\<close>

text \<open>
  The definitions of this section are written from the specification, not from the
  program; the theorems below compare the program with them.
\<close>

subsection \<open>The pitch die table (specification 4.1)\<close>

definition pdTable :: "(rat \<times> string) list" where
  "pdTable = [(2, ''d20''), (3, ''d12''), (4, ''d8''), (5, ''d4''),
              (6, ''-d4''), (7, ''-d8''), (8, ''-d12'')]"

text \<open>The tier of the first threshold that the value is strictly below; \<open>-d20\<close> otherwise.\<close>

fun tierOf :: "(rat \<times> string) list \<Rightarrow> jsnum \<Rightarrow> string" where
  "tierOf [] v = ''-d20''"
| "tierOf ((threshold, tier) # rest) v = (if lt v (Fin threshold) then tier else tierOf rest v)"

subsection \<open>Trait rules (specification 4.2)\<close>

text \<open>A category is an ordered list of rules; the first rule whose condition holds gives the tag.\<close>

fun firstRule :: "(bool \<times> string) list \<Rightarrow> string list" where
  "firstRule [] = []"
| "firstRule ((condition, tag) # rules) = (if condition then [tag] else firstRule rules)"

text \<open>A counting or rate statistic of a row: 0 when the column is missing or does not parse.\<close>

definition intStat :: "row \<Rightarrow> string \<Rightarrow> jsnum" where
  "intStat r column = (if isNaN (parseInt (r column)) then Fin 0 else parseInt (r column))"

definition floatStat :: "row \<Rightarrow> string \<Rightarrow> jsnum" where
  "floatStat r column = (if isNaN (parseFloat (r column)) then Fin 0 else parseFloat (r column))"

definition strikeoutRate :: "row \<Rightarrow> jsnum" where
  "strikeoutRate r =
     (if gt (intStat r ''PA'') (Fin 0) then divide (intStat r ''SO'') (intStat r ''PA'') else Fin 0)"

definition perNine :: "row \<Rightarrow> string \<Rightarrow> jsnum" where
  "perNine r column =
     (if gt (floatStat r ''IP'') (Fin 0)
      then divide (mul (intStat r column) (Fin 9)) (floatStat r ''IP'') else Fin 0)"

definition positionText :: "row \<Rightarrow> string" where
  "positionText r = (case r ''Pos'' of None \<Rightarrow> [] | Some s \<Rightarrow> s)"

definition batterPower :: "row \<Rightarrow> string list" where
  "batterPower r = firstRule
     [(ge (intStat r ''HR'') (Fin 35) \<or> ge (floatStat r ''SLG'') (round64 (560 / 1000)), ''P++''),
      (ge (intStat r ''HR'') (Fin 25) \<or> ge (floatStat r ''SLG'') (round64 (475 / 1000)), ''P+''),
      (le (intStat r ''HR'') (Fin 5), ''P-'')]"

definition batterContact :: "row \<Rightarrow> string list" where
  "batterContact r = firstRule
     [(ge (intStat r ''2B'') (Fin 35) \<or> lt (strikeoutRate r) (round64 (12 / 100)), ''C+''),
      (gt (strikeoutRate r) (Fin (25 / 100)), ''C-'')]"

definition batterSpeed :: "row \<Rightarrow> string list" where
  "batterSpeed r = firstRule
     [(ge (intStat r ''SB'') (Fin 20), ''S+''),
      (intStat r ''SB'' = Fin 0, ''S-'')]"

definition batterDefense :: "row \<Rightarrow> string list" where
  "batterDefense r = firstRule
     [((str_includes (positionText r) ''C'' \<or> str_includes (positionText r) ''SS''
          \<or> str_includes (positionText r) ''CF'')
        \<and> gt (floatStat r ''WAR'') (Fin (15 / 10)), ''D+'')]"

definition pitcherStrikeouts :: "row \<Rightarrow> string list" where
  "pitcherStrikeouts r = firstRule [(ge (perNine r ''SO'') (Fin 8), ''K+'')]"

definition pitcherGroundBall :: "row \<Rightarrow> string list" where
  "pitcherGroundBall r = firstRule
     [(lt (perNine r ''HR'') (round64 (7 / 10)) \<and> lt (floatStat r ''ERA'') (Fin (35 / 10)), ''GB+'')]"

definition pitcherControl :: "row \<Rightarrow> string list" where
  "pitcherControl r = firstRule
     [(lt (perNine r ''BB'') (Fin 2), ''CN+''),
      (gt (perNine r ''BB'') (Fin 4), ''CN-'')]"

definition pitcherStamina :: "row \<Rightarrow> string list" where
  "pitcherStamina r = firstRule [(gt (floatStat r ''IP'') (Fin 170), ''ST+'')]"

subsection \<open>The input filter (specification 4.3)\<close>

definition absent :: "jsval \<Rightarrow> bool" where
  "absent v = (case v of None \<Rightarrow> True | Some s \<Rightarrow> s = [])"

definition notPositive :: "jsnum \<Rightarrow> bool" where
  "notPositive x = (\<not> gt x (Fin 0))"

definition excludedBatting :: "row \<Rightarrow> bool" where
  "excludedBatting r =
     (absent (r ''Player'')
      \<or> (absent (r ''BA'')
          \<or> (notPositive (parseInt (r ''PA'')) \<and> notPositive (parseInt (r ''G'')))))"

definition excludedPitching :: "row \<Rightarrow> bool" where
  "excludedPitching r =
     (absent (r ''Player'')
      \<or> (absent (r ''ERA'') \<or> notPositive (parseFloat (r ''IP''))))"

text \<open>The records of a list of accepted rows, numbered in order.\<close>

definition normalizeBatters :: "row list \<Rightarrow> batter list" where
  "normalizeBatters rows = map (\<lambda>(i, r). mkBatter i r) (enumerate 0 rows)"

definition normalizePitchers :: "(nat \<Rightarrow> rat) \<Rightarrow> row list \<Rightarrow> pitcher list" where
  "normalizePitchers random rows = map (\<lambda>(i, r). mkPitcher random i r) (enumerate 0 rows)"

subsection \<open>Sorting and selection (specification 4.4)\<close>

text \<open>
  \<open>ys\<close> is \<open>xs\<close> sorted descending by \<open>key\<close>, ties keeping the order they have in \<open>xs\<close>.
\<close>

definition stableDescending :: "('a \<Rightarrow> jsnum) \<Rightarrow> 'a list \<Rightarrow> 'a list \<Rightarrow> bool" where
  "stableDescending key xs ys =
     (mset ys = mset xs
      \<and> sorted_wrt (\<lambda>a b. ge (key a) (key b)) ys
      \<and> (\<forall>k. filter (\<lambda>p. key p = k) ys = filter (\<lambda>p. key p = k) xs))"

text \<open>A list of batters in which no batter has a lower WAR than a later one.\<close>

definition warSorted :: "batter list \<Rightarrow> bool" where
  "warSorted bs = sorted_wrt (\<lambda>a b. \<not> lt (war a) (war b)) bs"




text \<open>
  The split of the pitchers: a starter has more than 5 games started, or has played a game
  and started more than half of his games.
\<close>

definition starterEligible :: "pitcher \<Rightarrow> bool" where
  "starterEligible p =
     (gt (starts p) (Fin 5)
      \<or> (gt (gamesP p) (Fin 0) \<and> gt (divide (starts p) (gamesP p)) (Fin (1 / 2))))"

text \<open>The position shown for an entry of \<open>positionPlayers\<close>, and the pool object behind it.\<close>

fun shownPosition :: "position_player \<Rightarrow> string" where
  "shownPosition (Batter b) = position b"
| "shownPosition (BenchDummy n p h b ob t) = p"

fun batterOid :: "position_player \<Rightarrow> nat option" where
  "batterOid (Batter b) = Some (oid b)"
| "batterOid (BenchDummy n p h b ob t) = None"

definition isPlaceholder :: "position_player \<Rightarrow> bool" where
  "isPlaceholder e = (batterOid e = None)"

fun isPitcherPlaceholder :: "roster_pitcher \<Rightarrow> bool" where
  "isPitcherPlaceholder (Pitcher p) = False"
| "isPitcherPlaceholder (PitcherDummy n d h b ob t) = True"

subsection \<open>States\<close>

definition absentOrEmpty :: "row list option \<Rightarrow> bool" where
  "absentOrEmpty stats = (case stats of None \<Rightarrow> True | Some rows \<Rightarrow> rows = [])"

definition emptyRoster :: roster where
  "emptyRoster = \<lparr> positionPlayers = [], startingPitchers = [], reliefPitchers = [] \<rparr>"

definition initialState :: state where
  "initialState = \<lparr> battingStats = None, pitchingStats = None, roster = emptyRoster,
                    isGenerating = False, alerts = [] \<rparr>"

section \<open>Example inputs\<close>

definition idleBatter :: row where
  "idleBatter = map_of [(''Player'', ''Cobb''), (''BA'', ''.366''), (''PA'', ''0''), (''G'', ''0'')]"

definition catcher :: row where
  "catcher = map_of [(''Player'', ''Posey''), (''Pos'', ''C''), (''BA'', ''.280''),
                     (''PA'', ''500''), (''WAR'', ''3.0'')]"

definition firstBaseman :: row where
  "firstBaseman = map_of [(''Player'', ''Gehrig*''), (''Pos'', ''1B''), (''BA'', ''.340''),
                          (''PA'', ''600''), (''WAR'', ''8.0'')]"

definition ace :: row where
  "ace = map_of [(''Player'', ''Cole''), (''ERA'', ''2.63''), (''IP'', ''209''),
                 (''G'', ''33''), (''GS'', ''33'')]"

definition closer :: row where
  "closer = map_of [(''Player'', ''Rivera''), (''ERA'', ''1.91''), (''IP'', ''70''),
                    (''G'', ''64''), (''GS'', ''0'')]"

definition loaded :: "row list \<Rightarrow> row list \<Rightarrow> state" where
  "loaded battingRows pitchingRows =
     initialState\<lparr>battingStats := Some battingRows, pitchingStats := Some pitchingRows\<rparr>"


definition starterRow :: "string \<Rightarrow> string \<Rightarrow> row" where
  "starterRow who innings = map_of [(''Player'', who), (''ERA'', ''3.50''), (''IP'', innings),
                                    (''G'', ''30''), (''GS'', ''30'')]"

definition rotation :: "row list" where
  "rotation = [starterRow ''A'' ''150'', starterRow ''B'' ''180'', starterRow ''C'' ''120'',
               starterRow ''D'' ''180'', starterRow ''E'' ''200'', starterRow ''F'' ''90'',
               closer]"

definition faintPitcher :: row where
  "faintPitcher = map_of [(''Player'', ''Ghost''), (''ERA'', ''3.00''), (''IP'', ''1e-400'')]"


section \<open>An order for the proofs about sorting\<close>

text \<open>
  The numbers other than \<open>NaN\<close> are ordered linearly; \<open>rank\<close> turns the descending order
  into the ascending order of pairs, so that the library's facts about stable sorting by a
  key apply.
\<close>

definition rank :: "jsnum \<Rightarrow> int \<times> rat" where
  "rank x = (case x of PosInf \<Rightarrow> (0, 0) | Fin q \<Rightarrow> (1, - q) | NegInf \<Rightarrow> (2, 0) | NaN \<Rightarrow> (3, 0))"

text \<open>
  Every finite binary64 number is a multiple of \<open>pow2 (-1074)\<close>, so two of them that differ
  differ by that much at least, and their difference does not round to zero. \<open>isDouble\<close>
  holds of the numbers other than \<open>NaN\<close> that lie on this grid.
\<close>

definition onGrid :: "rat \<Rightarrow> bool" where
  "onGrid q = (\<exists>k :: int. q = of_int k * pow2 (- 1074))"

definition isDouble :: "jsnum \<Rightarrow> bool" where
  "isDouble v = (case v of NaN \<Rightarrow> False | Fin q \<Rightarrow> onGrid q | _ \<Rightarrow> True)"

section \<open>Binary64 rounding\<close>

lemma pow2_pos [simp]: "0 < pow2 e"
  by (simp add: pow2_def)

lemma pow2_nonneg [simp]: "0 \<le> pow2 e"
  by (simp add: pow2_def)

lemma pow2_neq0 [simp]: "pow2 e \<noteq> 0"
  by (simp add: pow2_def)

lemma pow2_add: "pow2 (a + b) = pow2 a * pow2 b"
  unfolding pow2_def by (rule power_int_add) simp

lemma pow2_diff: "pow2 (a - b) = pow2 a / pow2 b"
  unfolding pow2_def by (rule power_int_diff) simp

lemma pow2_nat: "pow2 (int n) = 2 ^ n"
  by (simp add: pow2_def)

lemma pow2_0 [simp]: "pow2 0 = 1"
  by (simp add: pow2_def)

lemma pow2_mono: "a \<le> b \<Longrightarrow> pow2 a \<le> pow2 b"
  unfolding pow2_def by (rule power_int_increasing) simp_all

lemma pow2_less_imp: "pow2 a < pow2 b \<Longrightarrow> a < b"
  using pow2_mono [of b a] by (cases "a < b") simp_all

lemma ilog2_bounds: "0 < n \<Longrightarrow> 2 ^ ilog2 n \<le> n \<and> n < 2 ^ Suc (ilog2 n)"
proof (induction n rule: ilog2.induct)
  case (1 n)
  show ?case
  proof (cases "n < 2")
    case True
    with 1(2) show ?thesis
      by (subst (1 2) ilog2.simps) simp
  next
    case False
    then have "0 < n div 2"
      by simp
    with 1(1) False have "2 ^ ilog2 (n div 2) \<le> n div 2" and "n div 2 < 2 ^ Suc (ilog2 (n div 2))"
      by simp_all
    with False show ?thesis
      by (subst (1 2) ilog2.simps) (simp; linarith)
  qed
qed

lemma exponentOf_bounds:
  assumes "0 < a"
  shows "pow2 (exponentOf a) \<le> a \<and> a < pow2 (exponentOf a + 1)"
proof -
  obtain n d where nd: "quotient_of a = (n, d)"
    by (cases "quotient_of a")
  then have d: "0 < d" and a: "a = of_int n / of_int d"
    by (auto dest: quotient_of_denom_pos quotient_of_div)
  with assms have n: "0 < n"
    by (simp add: zero_less_divide_iff)
  define ln ld where "ln = ilog2 (nat n)" and "ld = ilog2 (nat d)"
  have bn: "2 ^ ln \<le> nat n" "nat n < 2 ^ Suc ln" and bd: "2 ^ ld \<le> nat d" "nat d < 2 ^ Suc ld"
    using ilog2_bounds [of "nat n"] ilog2_bounds [of "nat d"] n d by (simp_all add: ln_def ld_def)
  have rn: "(2::rat) ^ ln \<le> of_int n" "(of_int n :: rat) < 2 ^ Suc ln"
    using bn n by (metis of_nat_le_iff of_nat_nat less_imp_le of_nat_numeral of_nat_power,
                   metis of_nat_less_iff of_nat_nat less_imp_le of_nat_numeral of_nat_power)
  have rd: "(2::rat) ^ ld \<le> of_int d" "(of_int d :: rat) < 2 ^ Suc ld"
    using bd d by (metis of_nat_le_iff of_nat_nat less_imp_le of_nat_numeral of_nat_power,
                   metis of_nat_less_iff of_nat_nat less_imp_le of_nat_numeral of_nat_power)
  let ?k = "int ln - int ld"
  have low: "pow2 (?k - 1) \<le> a"
  proof -
    have "pow2 (?k - 1) = pow2 (int ln - int (Suc ld))"
      by (rule arg_cong [where f = pow2]) simp
    also have "\<dots> = pow2 (int ln) / pow2 (int (Suc ld))"
      by (rule pow2_diff)
    also have "\<dots> = (2::rat) ^ ln / 2 ^ Suc ld"
      by (simp only: pow2_nat)
    also have "\<dots> \<le> of_int n / of_int d"
      using rn rd d n by (intro frac_le) simp_all
    finally show ?thesis
      by (simp add: a)
  qed
  have high: "a < pow2 (?k + 1)"
  proof -
    have "of_int n / of_int d < (2::rat) ^ Suc ln / 2 ^ ld"
      using rn rd d n by (intro frac_less) simp_all
    also have "\<dots> = pow2 (int (Suc ln)) / pow2 (int ld)"
      by (simp only: pow2_nat)
    also have "\<dots> = pow2 (int (Suc ln) - int ld)"
      by (rule pow2_diff [symmetric])
    also have "\<dots> = pow2 (?k + 1)"
      by (rule arg_cong [where f = pow2]) simp
    finally show ?thesis
      by (simp add: a)
  qed
  have e: "exponentOf a = (if pow2 ?k \<le> a then ?k else ?k - 1)"
    by (simp add: exponentOf_def nd ln_def ld_def Let_def)
  show ?thesis
  proof (cases "pow2 ?k \<le> a")
    case True
    with high e show ?thesis by simp
  next
    case False
    with low e show ?thesis by simp
  qed
qed

lemma exponentOf_unique:
  assumes "pow2 e \<le> a" and "a < pow2 (e + 1)"
  shows "exponentOf a = e"
proof -
  have pos: "0 < a"
    using assms(1) by (rule less_le_trans [rotated]) simp
  from exponentOf_bounds [OF pos]
  have b: "pow2 (exponentOf a) \<le> a" "a < pow2 (exponentOf a + 1)"
    by simp_all
  have "pow2 e < pow2 (exponentOf a + 1)"
    using assms(1) b(2) by simp
  then have "e < exponentOf a + 1"
    by (rule pow2_less_imp)
  moreover have "pow2 (exponentOf a) < pow2 (e + 1)"
    using assms(2) b(1) by simp
  then have "exponentOf a < e + 1"
    by (rule pow2_less_imp)
  ultimately show ?thesis
    by simp
qed

lemma roundHalfEven_nonneg: "0 \<le> x \<Longrightarrow> 0 \<le> roundHalfEven x"
  by (simp add: roundHalfEven_def Let_def)

lemma roundHalfEven_pos: "1 \<le> x \<Longrightarrow> 1 \<le> roundHalfEven x"
  by (simp add: roundHalfEven_def Let_def)

lemma roundHalfEven_of_int: "roundHalfEven (of_int m) = m"
  by (simp add: roundHalfEven_def Let_def)

lemma roundHalfEven_near:
  "of_int m - 1 / 2 < x \<Longrightarrow> x < of_int m + 1 / 2 \<Longrightarrow> roundHalfEven x = m"
proof -
  assume lo: "of_int m - 1 / 2 < x" and hi: "x < of_int m + 1 / 2"
  show ?thesis
  proof (cases "of_int m \<le> x")
    case True
    then have "\<lfloor>x\<rfloor> = m"
      using hi by (intro floor_unique) simp_all
    then show ?thesis
      using hi by (simp add: roundHalfEven_def Let_def)
  next
    case False
    then have f: "\<lfloor>x\<rfloor> = m - 1"
      using lo by (intro floor_unique) simp_all
    then show ?thesis
      using lo by (simp add: roundHalfEven_def Let_def)
  qed
qed

lemma round64_0: "round64 0 = Fin 0"
  by (simp add: round64_def)

lemma round64_onGrid:
  assumes "round64 q = Fin r"
  shows "onGrid r"
proof (cases "q = 0")
  case True
  with assms have "r = 0"
    by (simp add: round64_0)
  then show ?thesis
    by (simp add: onGrid_def)
next
  case False
  define u where "u = max (exponentOf \<bar>q\<bar>) (- 1022) - 52"
  define m where "m = roundHalfEven (\<bar>q\<bar> / pow2 u)"
  have "0 \<le> u + 1074"
    by (simp add: u_def)
  then have "pow2 u = pow2 (int (nat (u + 1074)) + (- 1074))"
    by simp
  then have u: "pow2 u = of_int (2 ^ nat (u + 1074)) * pow2 (- 1074)"
    by (simp only: pow2_add pow2_nat) simp
  from assms False have "r = (if q < 0 then - (of_int m * pow2 u) else of_int m * pow2 u)"
    by (simp add: round64_def Let_def u_def m_def split: if_splits)
  then have "r = of_int ((if q < 0 then - m else m) * 2 ^ nat (u + 1074)) * pow2 (- 1074)"
    by (simp add: u)
  then show ?thesis
    unfolding onGrid_def by blast
qed

lemma round64_pos:
  assumes "pow2 (- 1074) \<le> q"
  shows "lt (Fin 0) (round64 q)"
proof -
  have q: "0 < q"
    using assms by (rule less_le_trans [rotated]) simp
  define e where "e = exponentOf q"
  define u where "u = max e (- 1022) - 52"
  define m where "m = roundHalfEven (q / pow2 u)"
  have b: "pow2 e \<le> q"
    using exponentOf_bounds [OF q] by (simp add: e_def)
  have "pow2 u \<le> q"
  proof (cases "- 1022 \<le> e")
    case True
    then have "pow2 u \<le> pow2 e"
      by (intro pow2_mono) (simp add: u_def)
    with b show ?thesis
      by simp
  next
    case False
    then have "u = - 1074"
      by (simp add: u_def)
    with assms show ?thesis
      by simp
  qed
  then have "1 \<le> q / pow2 u"
    by (simp add: le_divide_eq)
  then have "1 \<le> m"
    unfolding m_def by (rule roundHalfEven_pos)
  then have "0 < (of_int m :: rat) * pow2 u"
    by simp
  then show ?thesis
    using q by (simp add: round64_def Let_def e_def u_def m_def)
qed

lemma round64_neg:
  assumes "q < 0"
  shows "\<not> lt (Fin 0) (round64 q)"
proof -
  define u where "u = max (exponentOf \<bar>q\<bar>) (- 1022) - 52"
  define m where "m = roundHalfEven (\<bar>q\<bar> / pow2 u)"
  have "0 \<le> \<bar>q\<bar> / pow2 u"
    by simp
  then have "0 \<le> m"
    unfolding m_def by (rule roundHalfEven_nonneg)
  then have "0 \<le> (of_int m :: rat) * pow2 u"
    by simp
  then show ?thesis
    using assms by (simp add: round64_def Let_def u_def m_def)
qed

text \<open>
  A certificate for a positive number in the normal range: with the exponent \<open>e\<close> and the
  significand \<open>m\<close> given, the conditions are comparisons of numerals.
\<close>

lemma round64_normal:
  assumes "pow2 e \<le> q" and "q < pow2 (e + 1)" and "- 1022 \<le> e" and "e < 1023"
    and "of_int m - 1 / 2 < q / pow2 (e - 52)" and "q / pow2 (e - 52) < of_int m + 1 / 2"
    and "m \<le> 2 ^ 53"
  shows "round64 q = Fin (of_int m * pow2 (e - 52))"
proof -
  have q: "0 < q"
    using assms(1) by (rule less_le_trans [rotated]) simp
  have e: "exponentOf q = e"
    using assms(1,2) by (rule exponentOf_unique)
  have m: "roundHalfEven (q / pow2 (e - 52)) = m"
    using assms(5,6) by (rule roundHalfEven_near)
  have "(of_int m :: rat) \<le> of_int (2 ^ 53)"
    using assms(7) by (simp only: of_int_le_iff)
  then have "(of_int m :: rat) \<le> pow2 53"
    by (simp add: pow2_def)
  then have "of_int m * pow2 (e - 52) \<le> pow2 53 * pow2 (e - 52)"
    by (intro mult_right_mono) simp_all
  also have "\<dots> = pow2 (53 + (e - 52))"
    by (rule pow2_add [symmetric])
  also have "\<dots> = pow2 (e + 1)"
    by (rule arg_cong [where f = pow2]) simp
  also have "\<dots> < pow2 1024"
  proof -
    have "pow2 (e + 1) \<le> pow2 1023"
      using assms(4) by (intro pow2_mono) simp
    also have "pow2 1023 < pow2 (1023 + 1)"
      unfolding pow2_add by (simp add: pow2_def [of 1])
    finally show ?thesis
      by simp
  qed
  finally have "\<not> pow2 1024 \<le> of_int m * pow2 (e - 52)"
    by simp
  moreover have "max e (- 1022) = e"
    using assms(3) by simp
  ultimately show ?thesis
    using q by (simp add: round64_def Let_def e m)
qed

text \<open>Natural numbers below \<open>2^53\<close> are exact.\<close>

lemma round64_nat:
  assumes "n < 2 ^ 53"
  shows "round64 (of_nat n) = Fin (of_nat n)"
proof (cases "n = 0")
  case True
  then show ?thesis
    by (simp add: round64_0)
next
  case False
  define q :: rat where "q = of_nat n"
  define e where "e = exponentOf q"
  have "(of_nat n :: rat) < of_nat (2 ^ 53)"
    using assms by (simp only: of_nat_less_iff)
  then have q53: "q < pow2 53"
    by (simp add: q_def pow2_def)
  have q1: "1 \<le> q"
    using False by (simp add: q_def Suc_leI)
  then have pos: "0 < q"
    by simp
  have b: "pow2 e \<le> q" "q < pow2 (e + 1)"
    using exponentOf_bounds [OF pos] by (simp_all add: e_def)
  have "pow2 0 < pow2 (e + 1)"
    using q1 b(2) by simp
  then have e0: "0 \<le> e"
    using pow2_less_imp [of 0 "e + 1"] by simp
  have "pow2 e < pow2 53"
    using q53 b(1) by simp
  then have e52: "e \<le> 52"
    using pow2_less_imp [of e 53] by simp
  define k where "k = nat (52 - e)"
  define mm where "mm = int n * 2 ^ k"
  have k: "int k = 52 - e"
    using e52 by (simp add: k_def)
  have "pow2 (int k) * pow2 (e - 52) = pow2 (int k + (e - 52))"
    by (rule pow2_add [symmetric])
  also have "\<dots> = 1"
    by (simp add: k)
  finally have inv: "2 ^ k * pow2 (e - 52) = 1"
    by (simp only: pow2_nat)
  then have "q / pow2 (e - 52) = q * 2 ^ k"
    by (simp add: field_simps)
  also have "\<dots> = of_int mm"
    by (simp add: q_def mm_def)
  finally have m: "roundHalfEven (q / pow2 (e - 52)) = mm"
    by (simp only: roundHalfEven_of_int)
  have "of_int mm * pow2 (e - 52) = q * (2 ^ k * pow2 (e - 52))"
    by (simp add: q_def mm_def)
  then have v: "of_int mm * pow2 (e - 52) = q"
    by (simp only: inv mult_1_right)
  have "q < pow2 1024"
    using q53 by (rule less_le_trans) (simp add: pow2_mono)
  then have "\<not> pow2 1024 \<le> q"
    by simp
  moreover have "max e (- 1022) = e"
    using e0 by simp
  ultimately show ?thesis
    using pos m v
    by (simp add: round64_def Let_def e_def [symmetric] q_def [symmetric])
qed

lemma roundHalfEven_ge: "of_int k \<le> x \<Longrightarrow> k \<le> roundHalfEven x"
proof -
  assume "of_int k \<le> x"
  then have "k \<le> \<lfloor>x\<rfloor>"
    by (simp add: le_floor_iff)
  then show ?thesis
    by (simp add: roundHalfEven_def Let_def)
qed

text \<open>Overflow, underflow and symmetry.\<close>

lemma round64_overflow:
  assumes "pow2 1024 \<le> q"
  shows "round64 q = PosInf"
proof -
  have q: "0 < q"
    using assms by (rule less_le_trans [rotated]) simp
  define e where "e = exponentOf q"
  have b: "pow2 e \<le> q" "q < pow2 (e + 1)"
    using exponentOf_bounds [OF q] by (simp_all add: e_def)
  have "pow2 1024 < pow2 (e + 1)"
    using assms b(2) by simp
  then have e: "1024 \<le> e"
    using pow2_less_imp [of 1024 "e + 1"] by simp
  then have u: "max e (- 1022) = e"
    by simp
  have "pow2 52 * pow2 (e - 52) = pow2 (52 + (e - 52))"
    by (rule pow2_add [symmetric])
  then have split: "pow2 52 * pow2 (e - 52) = pow2 e"
    by simp
  then have "pow2 52 \<le> q / pow2 (e - 52)"
    using b(1) by (simp add: le_divide_eq)
  then have "of_int (2 ^ 52) \<le> q / pow2 (e - 52)"
    by (simp add: pow2_def)
  then have "2 ^ 52 \<le> roundHalfEven (q / pow2 (e - 52))"
    by (rule roundHalfEven_ge)
  then have "(of_int (2 ^ 52) :: rat) \<le> of_int (roundHalfEven (q / pow2 (e - 52)))"
    by (simp only: of_int_le_iff)
  then have "pow2 52 \<le> of_int (roundHalfEven (q / pow2 (e - 52)))"
    by (simp add: pow2_def)
  then have "pow2 52 * pow2 (e - 52) \<le> of_int (roundHalfEven (q / pow2 (e - 52))) * pow2 (e - 52)"
    by (intro mult_right_mono) simp_all
  then have "pow2 e \<le> of_int (roundHalfEven (q / pow2 (e - 52))) * pow2 (e - 52)"
    by (simp only: split)
  moreover have "pow2 1024 \<le> pow2 e"
    using e by (rule pow2_mono)
  ultimately have "pow2 1024 \<le> of_int (roundHalfEven (q / pow2 (e - 52))) * pow2 (e - 52)"
    by simp
  then show ?thesis
    using q by (simp add: round64_def Let_def e_def [symmetric] u)
qed

lemma round64_underflow:
  assumes "0 < q" and "q < pow2 (- 1075)"
  shows "round64 q = Fin 0"
proof -
  define e where "e = exponentOf q"
  have "pow2 e \<le> q"
    using exponentOf_bounds [OF assms(1)] by (simp add: e_def)
  with assms(2) have "pow2 e < pow2 (- 1075)"
    by simp
  then have "e < - 1075"
    by (rule pow2_less_imp)
  then have u: "max e (- 1022) - 52 = - 1074"
    by simp
  have "pow2 (- 1075) = pow2 (- 1074 + (- 1))"
    by simp
  also have "\<dots> = pow2 (- 1074) * pow2 (- 1)"
    by (rule pow2_add)
  also have "\<dots> = pow2 (- 1074) / 2"
    by (simp add: pow2_def [of "- 1"])
  finally have "q / pow2 (- 1074) < 1 / 2"
    using assms(2) by (simp add: divide_less_eq)
  moreover have "0 < q / pow2 (- 1074)"
    using assms(1) by simp
  ultimately have "roundHalfEven (q / pow2 (- 1074)) = 0"
    by (intro roundHalfEven_near) simp_all
  moreover have "\<not> pow2 1024 \<le> 0"
    by (simp add: not_le)
  ultimately show ?thesis
    using assms(1) by (simp add: round64_def Let_def e_def [symmetric] u)
qed

lemma round64_minus: "round64 q = Fin r \<Longrightarrow> round64 (- q) = Fin (- r)"
  by (cases "q = 0"; cases "q < 0") (auto simp: round64_def Let_def split: if_splits)

text \<open>Rules for numerals.\<close>

lemma round64_numeral:
  "numeral k < (9007199254740992 :: nat) \<Longrightarrow> round64 (numeral k) = Fin (numeral k)"
  using round64_nat [of "numeral k"] by simp

lemma round64_neg_numeral:
  "numeral k < (9007199254740992 :: nat) \<Longrightarrow> round64 (- numeral k) = Fin (- numeral k)"
  by (simp add: round64_numeral round64_minus)

lemma round64_1: "round64 1 = Fin 1"
  using round64_nat [of 1] by simp

lemmas round64_int = round64_0 round64_1 round64_numeral round64_neg_numeral

lemma round64_above_sixteenth: "1 / 16 \<le> q \<Longrightarrow> lt (Fin 0) (round64 q)"
proof (rule round64_pos)
  assume "1 / 16 \<le> q"
  moreover have "pow2 (- 1074) \<le> pow2 (- 4)"
    by (rule pow2_mono) simp
  moreover have "pow2 (- 4) = 1 / 16"
    by (simp add: pow2_def)
  ultimately show "pow2 (- 1074) \<le> q"
    by simp
qed

subsection \<open>Numbers on the grid\<close>

lemma isDouble_round64: "isDouble (round64 q)"
  by (cases "round64 q") (auto simp: isDouble_def round64_onGrid round64_def Let_def split: if_splits)

lemma isDouble_not_NaN: "isDouble v \<Longrightarrow> v \<noteq> NaN"
  by (auto simp: isDouble_def)

lemma or0_not_NaN: "or0 x \<noteq> NaN"
  by (simp add: or0_def)

lemma onGrid_0: "onGrid 0"
  by (simp add: onGrid_def)

lemma isDouble_or0: "x = NaN \<or> isDouble x \<Longrightarrow> isDouble (or0 x)"
  by (auto simp: or0_def isDouble_def onGrid_0)

lemma parseFloat_double: "parseFloat v = NaN \<or> isDouble (parseFloat v)"
  by (simp add: parseFloat_def Let_def isDouble_round64) (simp add: isDouble_def)

lemma parseInt_double: "parseInt v = NaN \<or> isDouble (parseInt v)"
  by (simp add: parseInt_def Let_def isDouble_round64)

lemma isDouble_stat: "isDouble (or0 (parseFloat v))" "isDouble (or0 (parseInt v))"
  by (simp_all add: isDouble_or0 parseFloat_double parseInt_double)

text \<open>The difference of two binary64 numbers has the sign of their order.\<close>

lemma grid_gap:
  assumes "onGrid x" and "onGrid y" and "x < y"
  shows "pow2 (- 1074) \<le> y - x"
proof -
  from assms(1,2) obtain i j :: int
    where x: "x = of_int i * pow2 (- 1074)" and y: "y = of_int j * pow2 (- 1074)"
    by (auto simp: onGrid_def)
  with assms(3) have "(of_int i :: rat) < of_int j"
    by simp
  then have "i + 1 \<le> j"
    by simp
  then have "(of_int (i + 1) :: rat) \<le> of_int j"
    by (simp only: of_int_le_iff)
  then have "of_int (i + 1) * pow2 (- 1074) \<le> of_int j * pow2 (- 1074)"
    by (intro mult_right_mono) simp_all
  then show ?thesis
    by (simp add: x y algebra_simps)
qed

lemma gt_sub: "isDouble a \<Longrightarrow> isDouble b \<Longrightarrow> gt (sub b a) (Fin 0) \<longleftrightarrow> lt a b"
proof (cases a; cases b)
  fix x y
  assume a: "a = Fin x" and b: "b = Fin y" and "isDouble a" and "isDouble b"
  then have grid: "onGrid x" "onGrid y"
    by (simp_all add: isDouble_def)
  consider "x < y" | "x = y" | "y < x"
    by linarith
  then show ?thesis
  proof cases
    case 1
    then have "lt (Fin 0) (round64 (y - x))"
      using grid by (intro round64_pos grid_gap)
    with 1 show ?thesis
      by (simp add: a b gt_def)
  next
    case 2
    then show ?thesis
      by (simp add: a b gt_def round64_0)
  next
    case 3
    then have "\<not> lt (Fin 0) (round64 (y - x))"
      by (intro round64_neg) simp
    with 3 show ?thesis
      by (simp add: a b gt_def)
  qed
qed (simp_all add: gt_def isDouble_def)

section \<open>Rating converters: the pitch die\<close>

lemmas parse_defs =
  parseFloat_def parseInt_def trimStart_def ToString_def signOf_def dropSign_def isDigit_def
  isHexDigit_def isWhiteSpace_def radixValue_def digitValue_def pow10_def exponentPart_def

lemma parseFloat_2_00: "parseFloat (Some ''2.00'') = Fin 2"
  by (simp add: parse_defs Let_def round64_int)

lemma round64_1_99: "round64 (199 / 100) = Fin (8962163258467287 / 4503599627370496)"
  using round64_normal [where e = 0 and m = 8962163258467287 and q = "199 / 100"]
  by (simp add: pow2_def)

lemma parseFloat_1_99: "parseFloat (Some ''1.99'') = Fin (8962163258467287 / 4503599627370496)"
  by (simp add: parse_defs Let_def round64_1_99)

text \<open>
  C4. For every ERA value, \<open>calcPD\<close> returns \<open>d4\<close> when the value does not parse, and
  otherwise the tier that the table of strict upper thresholds \<open>pdTable\<close> selects for the
  parsed number; the text \<open>2.00\<close> gives \<open>d12\<close> and the text \<open>1.99\<close> gives \<open>d20\<close>.
\<close>

theorem calcPD_table:
  "calcPD era = (if isNaN (parseFloat era) then ''d4'' else tierOf pdTable (parseFloat era))
   \<and> calcPD (Some ''2.00'') = ''d12''
   \<and> calcPD (Some ''1.99'') = ''d20''"
proof -
  have table: "\<And>e. calcPD e = (if isNaN (parseFloat e) then ''d4'' else tierOf pdTable (parseFloat e))"
    by (simp add: calcPD_def pdTable_def Let_def)
  have "calcPD (Some ''2.00'') = ''d12''"
    by (simp add: table parseFloat_2_00 pdTable_def isNaN_def)
  moreover have "calcPD (Some ''1.99'') = ''d20''"
    by (simp add: table parseFloat_1_99 pdTable_def isNaN_def)
  ultimately show ?thesis
    using table by blast
qed

text \<open>
  The parsed number is the binary64 number: a text just below a threshold that rounds to
  the threshold gets the tier above it, a text beyond the range is an infinity, and a
  text below the range is zero.
\<close>

lemma parseFloat_rounds_up: "parseFloat (Some ''1.9999999999999999999'') = Fin 2"
proof -
  have "parseFloat (Some ''1.9999999999999999999'')
      = round64 (19999999999999999999 / 10000000000000000000)"
    by (simp add: parse_defs Let_def)
  also have "\<dots> = Fin 2"
    using round64_normal [where e = 0 and m = 9007199254740992
        and q = "19999999999999999999 / 10000000000000000000"]
    by (simp add: pow2_def)
  finally show ?thesis .
qed

lemma calcPD_rounds_up: "calcPD (Some ''1.9999999999999999999'') = ''d12''"
  by (simp add: calcPD_def parseFloat_rounds_up isNaN_def)

lemma parseFloat_overflow: "parseFloat (Some ''1e400'') = PosInf"
proof -
  have "parseFloat (Some ''1e400'') = round64 (10 ^ 400)"
    by (simp add: parse_defs Let_def)
  also have "\<dots> = PosInf"
    by (rule round64_overflow) (simp add: pow2_def)
  finally show ?thesis .
qed

lemma parseFloat_underflow: "parseFloat (Some ''1e-400'') = Fin 0"
proof -
  have "parseFloat (Some ''1e-400'') = round64 (1 / 10 ^ 400)"
    by (simp add: parse_defs Let_def)
  also have "\<dots> = Fin 0"
    by (rule round64_underflow) (simp_all add: pow2_def)
  finally show ?thesis .
qed

text \<open>The examples of the specification for the other converters and for names.\<close>

lemma round64_0_3: "round64 (3 / 10) = Fin (5404319552844595 / 18014398509481984)"
  using round64_normal [where e = "- 2" and m = 5404319552844595 and q = "3 / 10"]
  by (simp add: pow2_def)

lemma round64_0_3_100: "round64 (135107988821114875 / 4503599627370496) = Fin 30"
  using round64_normal [where e = 4 and m = 8444249301319680
      and q = "135107988821114875 / 4503599627370496"]
  by (simp add: pow2_def)

lemma calcBT_examples: "calcBT (Some ''.300'') = Fin 30" "calcBT (Some ''abc'') = Fin 0"
  by (simp_all add: calcBT_def parse_defs Let_def isNaN_def round64_0_3 round64_0_3_100
        floor_eq_iff)

text \<open>The product is rounded before \<^verbatim>\<open>Math.round\<close> sees it: \<^verbatim>\<open>.285\<close> gives 28, not 29.\<close>

lemma round64_0_285: "round64 (57 / 200) = Fin (5134103575202365 / 18014398509481984)"
  using round64_normal [where e = "- 2" and m = 5134103575202365 and q = "57 / 200"]
  by (simp add: pow2_def)

lemma round64_0_285_100:
  "round64 (128352589380059125 / 4503599627370496)
     = Fin (8022036836253695 / 281474976710656)"
  using round64_normal [where e = 4 and m = 8022036836253695
      and q = "128352589380059125 / 4503599627370496"]
  by (simp add: pow2_def)

lemma calcBT_below_tie: "calcBT (Some ''.285'') = Fin 28"
  by (simp add: calcBT_def parse_defs Let_def isNaN_def round64_0_285 round64_0_285_100
        floor_eq_iff)

lemma name_examples:
  "cleanName (Some ''Soto*'') = ''Soto''" "getHandedness (Some ''Soto*'') = ''L''"
  "getHandedness (Some ''Judge#'') = ''S''" "getHandedness (Some ''Ohtani'') = ''R''"
  by (simp_all add: cleanName_def getHandedness_def falsy_def endsWith_def)

section \<open>Player normalizer: the input filter\<close>

lemma absent_falsy: "absent v = falsy v"
  by (cases v) (simp_all add: absent_def falsy_def)

lemma skipBatter_excluded: "skipBatter r = excludedBatting r"
  by (auto simp: skipBatter_def excludedBatting_def absent_falsy notPositive_def)

lemma skipPitcher_excluded: "skipPitcher r = excludedPitching r"
  by (auto simp: skipPitcher_def excludedPitching_def absent_falsy notPositive_def)

text \<open>The loops push one record for each row that passes the test, and nothing else.\<close>

lemma processBatters_loop_acc:
  "processBatters_loop rows acc =
     acc @ map (\<lambda>(i, r). mkBatter i r) (enumerate (length acc) (filter (\<lambda>r. \<not> skipBatter r) rows))"
  by (induction rows arbitrary: acc) simp_all

lemma processPitchers_loop_acc:
  "processPitchers_loop random rows acc =
     acc @ map (\<lambda>(i, r). mkPitcher random i r)
             (enumerate (length acc) (filter (\<lambda>r. \<not> skipPitcher r) rows))"
  by (induction rows arbitrary: acc) simp_all

lemma idleBatter_values:
  "parseInt (idleBatter ''PA'') = Fin 0" "parseInt (idleBatter ''G'') = Fin 0"
  "idleBatter ''BA'' = Some ''.366''"
  by (simp_all add: idleBatter_def parse_defs Let_def round64_int)

lemma catcher_accepted: "\<not> skipBatter catcher"
  by (simp add: skipBatter_def catcher_def falsy_def gt_def parse_defs Let_def round64_int)

text \<open>Innings that binary64 reads as zero are not positive.\<close>

lemma faintPitcher_skipped: "skipPitcher faintPitcher"
  by (simp add: skipPitcher_def faintPitcher_def parseFloat_underflow gt_def)

text \<open>
  C6. The test that skips a row is the exclusion of the specification: a batting row is
  skipped exactly when its name or batting average is absent or neither plate appearances
  nor games parse to a positive number, a pitching row exactly when its name or ERA is
  absent or the innings pitched do not parse to a positive number. A batting row with
  \<open>PA = 0\<close> and \<open>G = 0\<close> is skipped whatever its batting average. The loops return the
  records of the rows that are not excluded, in order: an excluded row leaves no trace and
  does not stop the loop.
\<close>

theorem input_filter:
  "(skipBatter r \<longleftrightarrow> excludedBatting r)
   \<and> (skipPitcher r \<longleftrightarrow> excludedPitching r)
   \<and> (parseInt (r ''PA'') = Fin 0 \<and> parseInt (r ''G'') = Fin 0 \<longrightarrow> skipBatter r)
   \<and> processBatters_loop rows [] = normalizeBatters (filter (\<lambda>r. \<not> excludedBatting r) rows)
   \<and> processPitchers_loop random prows []
       = normalizePitchers random (filter (\<lambda>r. \<not> excludedPitching r) prows)"
proof -
  have "parseInt (r ''PA'') = Fin 0 \<and> parseInt (r ''G'') = Fin 0 \<longrightarrow> skipBatter r"
    by (simp add: skipBatter_def gt_def)
  moreover have "processBatters_loop rows [] = normalizeBatters (filter (\<lambda>r. \<not> excludedBatting r) rows)"
    by (simp add: processBatters_loop_acc normalizeBatters_def skipBatter_excluded)
  moreover have "processPitchers_loop random prows []
       = normalizePitchers random (filter (\<lambda>r. \<not> excludedPitching r) prows)"
    by (simp add: processPitchers_loop_acc normalizePitchers_def skipPitcher_excluded)
  ultimately show ?thesis
    by (simp add: skipBatter_excluded skipPitcher_excluded)
qed

theorem input_filter_witness:
  "parseInt (idleBatter ''PA'') = Fin 0 \<and> parseInt (idleBatter ''G'') = Fin 0
   \<and> idleBatter ''BA'' = Some ''.366''
   \<and> skipBatter idleBatter
   \<and> processBatters_loop [idleBatter, catcher] [] = [mkBatter 0 catcher]
   \<and> excludedPitching faintPitcher
   \<and> processPitchers_loop (\<lambda>_. 0) [faintPitcher] [] = []"
  using input_filter [of idleBatter "[idleBatter, catcher]" "\<lambda>_. 0" "[faintPitcher]"]
    input_filter [of faintPitcher "[]" "\<lambda>_. 0" "[]"]
  by (simp add: idleBatter_values catcher_accepted faintPitcher_skipped
        skipBatter_excluded [symmetric] skipPitcher_excluded [symmetric]
        normalizeBatters_def normalizePitchers_def)

section \<open>The handler: missing input and determinism\<close>

text \<open>
  C7. When a statistics variable is \<^verbatim>\<open>null\<close> or an empty array, \<open>generateRoster\<close> shows the
  message and changes nothing else: the roster of an earlier generation stays. Otherwise
  it shows no message and stores the assembled roster, whatever the rows are.
\<close>

theorem input_missing:
  "(absentOrEmpty (battingStats s) \<or> absentOrEmpty (pitchingStats s)
      \<longrightarrow> generateRoster random s
            = s\<lparr>alerts := alerts s @
                  [''Please upload both batting and pitching stats files with valid data.'']\<rparr>
          \<and> roster (generateRoster random s) = roster s)
   \<and> (\<not> (absentOrEmpty (battingStats s) \<or> absentOrEmpty (pitchingStats s))
      \<longrightarrow> alerts (generateRoster random s) = alerts s
          \<and> roster (generateRoster random s)
              = assemble random (the (battingStats s)) (the (pitchingStats s)))"
  by (auto simp: generateRoster_def inputMissing_def absentOrEmpty_def split: option.splits)

theorem input_missing_witness:
  "absentOrEmpty (battingStats (loaded [] [ace]))
   \<and> alerts (generateRoster (\<lambda>_. 0) (loaded [] [ace]))
       = [''Please upload both batting and pitching stats files with valid data.'']
   \<and> roster (generateRoster (\<lambda>_. 0) (loaded [] [ace])) = emptyRoster
   \<and> \<not> absentOrEmpty (battingStats (loaded [catcher] [ace]))
   \<and> \<not> absentOrEmpty (pitchingStats (loaded [catcher] [ace]))
   \<and> alerts (generateRoster (\<lambda>_. 0) (loaded [catcher] [ace])) = []"
  using input_missing [of "loaded [] [ace]" "\<lambda>_. 0"] input_missing [of "loaded [catcher] [ace]" "\<lambda>_. 0"]
  by (simp add: loaded_def initialState_def absentOrEmpty_def)

text \<open>
  C9. With the results of \<^verbatim>\<open>Math.random\<close> fixed, two states that hold the same two row
  sets get the same roster, whatever roster, flag and messages they held before; and
  generating a second time gives the roster of the first time.
\<close>

theorem generation_deterministic:
  "battingStats s1 = battingStats s2 \<Longrightarrow> pitchingStats s1 = pitchingStats s2
   \<Longrightarrow> \<not> inputMissing s1
   \<Longrightarrow> roster (generateRoster random s1) = roster (generateRoster random s2)
       \<and> roster (generateRoster random (generateRoster random s1))
           = roster (generateRoster random s1)"
proof -
  assume same: "battingStats s1 = battingStats s2" "pitchingStats s1 = pitchingStats s2"
    and present: "\<not> inputMissing s1"
  from same have "inputMissing s2 = inputMissing s1"
    by (simp add: inputMissing_def)
  moreover have "\<And>r g. inputMissing (s1\<lparr>roster := r, isGenerating := g\<rparr>) = inputMissing s1"
    by (simp add: inputMissing_def)
  ultimately show ?thesis
    using same present by (simp add: generateRoster_def)
qed

theorem generation_deterministic_witness:
  "\<not> inputMissing (loaded [catcher] [ace])
   \<and> roster (generateRoster (\<lambda>_. 0) (loaded [catcher] [ace]))
       = roster (generateRoster (\<lambda>_. 0)
           ((loaded [catcher] [ace])\<lparr>isGenerating := True, alerts := [''seen'']\<rparr>))"
  using generation_deterministic
    [of "loaded [catcher] [ace]"
        "(loaded [catcher] [ace])\<lparr>isGenerating := True, alerts := [''seen'']\<rparr>" "\<lambda>_. 0"]
  by (simp add: loaded_def initialState_def inputMissing_def)

section \<open>Position resolution\<close>

lemma str_includes_CF_C: "str_includes s ''CF'' \<Longrightarrow> str_includes s ''C''"
  by (induction s) (auto simp: prefix_Cons)

lemma getPosition_not_CF: "getPosition posStr \<noteq> ''CF''"
  by (auto simp: getPosition_def dest: str_includes_CF_C)

lemma mkBatter_not_CF: "position (mkBatter i r) \<noteq> ''CF''"
  by (simp add: mkBatter_def getPosition_not_CF)

lemma processed_not_CF: "b \<in> set (processBatters_loop rows []) \<Longrightarrow> position b \<noteq> ''CF''"
  by (auto simp: processBatters_loop_acc mkBatter_not_CF)

lemma set_insort_cmp: "set (insort_cmp cmp x xs) = insert x (set xs)"
  by (induction xs) auto

lemma set_sort_cmp: "set (sort_cmp cmp xs) = set xs"
  by (induction xs) (simp_all add: sort_cmp_def set_insort_cmp)

text \<open>A round of the lineup loop only takes batters out of the pool.\<close>

lemma fillSlot_pool_subset: "set (snd (fillSlot pos st)) \<subseteq> set (snd st)"
  by (auto simp: fillSlot_def Let_def split: list.splits option.splits)

lemma fillLineup_snoc: "fillLineup (ps @ [pos]) bs = fillSlot pos (fillLineup ps bs)"
  by (simp add: fillLineup_def)

lemma fillLineup_pool_subset: "set (snd (fillLineup ps bs)) \<subseteq> set bs"
proof (induction ps rule: rev_induct)
  case Nil
  show ?case by (simp add: fillLineup_def)
next
  case (snoc pos ps)
  then show ?case
    using fillSlot_pool_subset [of pos "fillLineup ps bs"] by (auto simp: fillLineup_snoc)
qed



text \<open>
  \<open>getPosition\<close> never returns \<open>CF\<close>, so no batter of the pool has that position when the
  round for the seventh slot, \<open>CF\<close>, starts.
\<close>

lemma center_field_pool:
  "p \<in> set (snd (fillLineup ps (sort_cmp byWar (processBatters_loop rows [])))) \<Longrightarrow> position p \<noteq> ''CF''"
  using fillLineup_pool_subset [of ps "sort_cmp byWar (processBatters_loop rows [])"]
  by (auto simp: set_sort_cmp dest: processed_not_CF)

lemma seventh_slot: "positions ! 6 = ''CF''" "take 7 positions = take 6 positions @ [''CF'']"
  by (simp_all add: positions_def)

section \<open>Trait inference by category\<close>

lemma or0_intStat: "or0 (parseInt (r c)) = intStat r c"
  by (simp add: or0_def intStat_def isNaN_def)

lemma or0_floatStat: "or0 (parseFloat (r c)) = floatStat r c"
  by (simp add: or0_def floatStat_def isNaN_def)

lemma intStat_not_NaN: "intStat r c \<noteq> NaN"
  by (simp add: intStat_def isNaN_def)

lemma gt_WAR: "gt (parseFloat (r ''WAR'')) (Fin (15 / 10)) = gt (floatStat r ''WAR'') (Fin (15 / 10))"
  by (simp add: floatStat_def isNaN_def gt_def)

lemma pos_positionText: "(if falsy (r ''Pos'') then [] else the (r ''Pos'')) = positionText r"
  by (cases "r ''Pos''") (simp_all add: falsy_def positionText_def)

lemma length_firstRule: "length (firstRule rules) \<le> 1"
  by (induction rules) auto

lemma calcBattingTraits_categories:
  "calcBattingTraits r = join '' '' (batterPower r @ batterContact r @ batterSpeed r @ batterDefense r)"
  unfolding calcBattingTraits_def Let_def or0_intStat or0_floatStat gt_WAR pos_positionText
    batterPower_def batterContact_def batterSpeed_def batterDefense_def strikeoutRate_def seq_def
  by (simp add: intStat_not_NaN)

lemma calcPitchingTraits_categories:
  "calcPitchingTraits r =
     join '' '' (pitcherStrikeouts r @ pitcherGroundBall r @ pitcherControl r @ pitcherStamina r)"
  unfolding calcPitchingTraits_def Let_def or0_intStat or0_floatStat
    pitcherStrikeouts_def pitcherGroundBall_def pitcherControl_def pitcherStamina_def perNine_def
  by simp

lemma parse_undefined: "parseInt None = NaN" "parseFloat None = NaN"
  by (simp_all add: parse_defs Let_def)

lemma missing_stat: "r column = None \<Longrightarrow> intStat r column = Fin 0 \<and> floatStat r column = Fin 0"
  by (simp add: intStat_def floatStat_def parse_undefined isNaN_def)

text \<open>Each category reads its own columns only.\<close>

lemma batter_categories_independent:
  "r ''HR'' = r' ''HR'' \<and> r ''SLG'' = r' ''SLG'' \<Longrightarrow> batterPower r = batterPower r'"
  "r ''2B'' = r' ''2B'' \<and> r ''SO'' = r' ''SO'' \<and> r ''PA'' = r' ''PA''
     \<Longrightarrow> batterContact r = batterContact r'"
  "r ''SB'' = r' ''SB'' \<Longrightarrow> batterSpeed r = batterSpeed r'"
  "r ''Pos'' = r' ''Pos'' \<and> r ''WAR'' = r' ''WAR'' \<Longrightarrow> batterDefense r = batterDefense r'"
  unfolding batterPower_def batterContact_def batterSpeed_def batterDefense_def
    strikeoutRate_def intStat_def floatStat_def positionText_def
  by presburger+

lemma pitcher_categories_independent:
  "r ''SO'' = r' ''SO'' \<and> r ''IP'' = r' ''IP'' \<Longrightarrow> pitcherStrikeouts r = pitcherStrikeouts r'"
  "r ''HR'' = r' ''HR'' \<and> r ''IP'' = r' ''IP'' \<and> r ''ERA'' = r' ''ERA''
     \<Longrightarrow> pitcherGroundBall r = pitcherGroundBall r'"
  "r ''BB'' = r' ''BB'' \<and> r ''IP'' = r' ''IP'' \<Longrightarrow> pitcherControl r = pitcherControl r'"
  "r ''IP'' = r' ''IP'' \<Longrightarrow> pitcherStamina r = pitcherStamina r'"
  unfolding pitcherStrikeouts_def pitcherGroundBall_def pitcherControl_def
    pitcherStamina_def perNine_def intStat_def floatStat_def
  by presburger+

text \<open>
  C8. The traits of a batting row are the tags of the four categories power, contact,
  speed and defense, in this order, joined by a space; those of a pitching row the tags
  of strikeouts, ground ball, control and stamina. A category gives at most one tag, the
  one of its first rule that holds, and a statistic that is missing reads as 0; with 0
  plate appearances the strikeout rate is 0.
\<close>

theorem traits_by_category:
  "calcBattingTraits r
     = join '' '' (batterPower r @ batterContact r @ batterSpeed r @ batterDefense r)
   \<and> calcPitchingTraits r
     = join '' '' (pitcherStrikeouts r @ pitcherGroundBall r @ pitcherControl r @ pitcherStamina r)
   \<and> length (batterPower r) \<le> 1 \<and> length (batterContact r) \<le> 1
   \<and> length (batterSpeed r) \<le> 1 \<and> length (batterDefense r) \<le> 1
   \<and> length (pitcherStrikeouts r) \<le> 1 \<and> length (pitcherGroundBall r) \<le> 1
   \<and> length (pitcherControl r) \<le> 1 \<and> length (pitcherStamina r) \<le> 1
   \<and> (r column = None \<longrightarrow> intStat r column = Fin 0 \<and> floatStat r column = Fin 0)
   \<and> (intStat r ''PA'' = Fin 0 \<longrightarrow> strikeoutRate r = Fin 0)"
proof -
  have "length (batterPower r) \<le> 1 \<and> length (batterContact r) \<le> 1
     \<and> length (batterSpeed r) \<le> 1 \<and> length (batterDefense r) \<le> 1"
    unfolding batterPower_def batterContact_def batterSpeed_def batterDefense_def
    by (intro conjI length_firstRule)
  moreover have "length (pitcherStrikeouts r) \<le> 1 \<and> length (pitcherGroundBall r) \<le> 1
     \<and> length (pitcherControl r) \<le> 1 \<and> length (pitcherStamina r) \<le> 1"
    unfolding pitcherStrikeouts_def pitcherGroundBall_def pitcherControl_def pitcherStamina_def
    by (intro conjI length_firstRule)
  moreover have "intStat r ''PA'' = Fin 0 \<longrightarrow> strikeoutRate r = Fin 0"
    by (simp add: strikeoutRate_def gt_def)
  ultimately show ?thesis
    using calcBattingTraits_categories [of r] calcPitchingTraits_categories [of r]
      missing_stat [of r column]
    by blast
qed

lemma idleBatter_stats:
  "idleBatter ''HR'' = None" "intStat idleBatter ''PA'' = Fin 0"
  by (simp_all add: idleBatter_def intStat_def isNaN_def parse_defs Let_def round64_int)

lemma literals_positive:
  "lt (Fin 0) (round64 (14 / 25))" "lt (Fin 0) (round64 (19 / 40))"
  "lt (Fin 0) (round64 (3 / 25))" "lt (Fin 0) (round64 (7 / 10))"
  by (rule round64_above_sixteenth, simp)+

lemma idleBatter_traits: "calcBattingTraits idleBatter = ''P- C+ S-''"
  by (simp add: calcBattingTraits_def idleBatter_def parse_defs Let_def or0_def gt_def ge_def
        le_def seq_def falsy_def round64_int literals_positive)

theorem traits_by_category_witness:
  "idleBatter ''HR'' = None \<and> intStat idleBatter ''HR'' = Fin 0
   \<and> intStat idleBatter ''PA'' = Fin 0 \<and> strikeoutRate idleBatter = Fin 0
   \<and> join '' '' (batterPower idleBatter @ batterContact idleBatter
                   @ batterSpeed idleBatter @ batterDefense idleBatter) = ''P- C+ S-''"
  using traits_by_category [of idleBatter "''HR''"]
  by (simp add: idleBatter_stats idleBatter_traits)

section \<open>Stable sorting\<close>

lemma rank_less: "a \<noteq> NaN \<Longrightarrow> b \<noteq> NaN \<Longrightarrow> rank b < rank a \<longleftrightarrow> lt a b"
  by (cases a; cases b) (simp_all add: rank_def less_prod_def)

lemma rank_le: "a \<noteq> NaN \<Longrightarrow> b \<noteq> NaN \<Longrightarrow> rank a \<le> rank b \<longleftrightarrow> ge a b"
  by (cases a; cases b) (auto simp: rank_def less_eq_prod_def ge_def le_def)

lemma rank_eq: "rank a = rank b \<longleftrightarrow> a = b"
  by (cases a; cases b) (simp_all add: rank_def)

lemma insort_cmp_insort_key:
  "isDouble (key x) \<Longrightarrow> \<forall>y \<in> set ys. isDouble (key y)
   \<Longrightarrow> insort_cmp (\<lambda>a b. sub (key b) (key a)) x ys = insort_key (\<lambda>p. rank (key p)) x ys"
  by (induction ys) (auto simp: gt_sub rank_less [symmetric] isDouble_not_NaN)

lemma sort_cmp_sort_key:
  "\<forall>x \<in> set xs. isDouble (key x)
   \<Longrightarrow> sort_cmp (\<lambda>a b. sub (key b) (key a)) xs = sort_key (\<lambda>p. rank (key p)) xs"
proof (induction xs)
  case Nil
  show ?case by (simp add: sort_cmp_def)
next
  case (Cons x xs)
  then have "sort_cmp (\<lambda>a b. sub (key b) (key a)) xs = sort_key (\<lambda>p. rank (key p)) xs"
    by simp
  moreover have "\<forall>y \<in> set (sort_key (\<lambda>p. rank (key p)) xs). isDouble (key y)"
    using Cons.prems by simp
  ultimately show ?case
    using Cons.prems by (simp add: sort_cmp_def insort_cmp_insort_key)
qed

lemma sort_cmp_stableDescending:
  assumes "\<forall>x \<in> set xs. isDouble (key x)"
  shows "stableDescending key xs (sort_cmp (\<lambda>a b. sub (key b) (key a)) xs)"
proof -
  let ?f = "\<lambda>p. rank (key p)"
  have eq: "sort_cmp (\<lambda>a b. sub (key b) (key a)) xs = sort_key ?f xs"
    using assms by (rule sort_cmp_sort_key)
  have "sorted_wrt (\<lambda>a b. ?f a \<le> ?f b) (sort_key ?f xs)"
    using sorted_sort_key [of ?f xs] by (simp add: sorted_map)
  then have "sorted_wrt (\<lambda>a b. ge (key a) (key b)) (sort_key ?f xs)"
    by (rule sorted_wrt_mono_rel [rotated]) (use assms in \<open>simp add: rank_le isDouble_not_NaN\<close>)
  moreover have "filter (\<lambda>p. key p = k) (sort_key ?f xs) = filter (\<lambda>p. key p = k) xs" for k
    using sort_key_stable [of ?f "rank k" xs] by (simp add: rank_eq)
  ultimately show ?thesis
    by (simp add: stableDescending_def eq)
qed

lemma stableDescending_unique:
  assumes "\<forall>x \<in> set xs. isDouble (key x)" and "stableDescending key xs ys"
  shows "ys = sort_cmp (\<lambda>a b. sub (key b) (key a)) xs"
proof -
  let ?f = "\<lambda>p. rank (key p)"
  from assms(2) have m: "mset ys = mset xs"
    and s: "sorted_wrt (\<lambda>a b. ge (key a) (key b)) ys"
    and st: "\<And>k. filter (\<lambda>p. key p = k) ys = filter (\<lambda>p. key p = k) xs"
    by (simp_all add: stableDescending_def)
  from m have sets: "set ys = set xs"
    by (rule mset_eq_setD)
  have "sorted_wrt (\<lambda>a b. ?f a \<le> ?f b) ys"
    using s by (rule sorted_wrt_mono_rel [rotated])
      (use assms(1) sets in \<open>simp add: rank_le isDouble_not_NaN\<close>)
  then have "sorted (map ?f ys)"
    by (simp add: sorted_map)
  moreover have "filter (\<lambda>x. ?f k = ?f x) ys = filter (\<lambda>x. ?f k = ?f x) xs" for k
    using st [of "key k"] by (simp add: rank_eq eq_commute)
  ultimately have "sort_key ?f xs = ys"
    using m by (intro properties_for_sort_key) simp_all
  then show ?thesis
    using assms(1) by (simp add: sort_cmp_sort_key)
qed

section \<open>Starters and relievers\<close>

lemma ip_mkPitcher: "isDouble (ip (mkPitcher random i r))"
  by (simp add: mkPitcher_def isDouble_stat)

lemma processPitchers_ip: "p \<in> set (processPitchers_loop random rows []) \<Longrightarrow> isDouble (ip p)"
  by (auto simp: processPitchers_loop_acc ip_mkPitcher)

text \<open>The predicate of the program's two filters is the split of the specification.\<close>

lemma isStarter_eligible: "isStarter p = starterEligible p"
  by (simp add: isStarter_def starterEligible_def)

lemma map_oidP_enumerate:
  "map oidP (map (\<lambda>(i, r). mkPitcher random i r) (enumerate n rs)) = [n..<n + length rs]"
  by (induction rs arbitrary: n) (simp_all add: mkPitcher_def upt_rec)

lemma distinct_processPitchers: "distinct (processPitchers_loop random rows [])"
proof -
  have "map oidP (processPitchers_loop random rows [])
      = [0..<length (filter (\<lambda>r. \<not> skipPitcher r) rows)]"
    by (simp add: processPitchers_loop_acc map_oidP_enumerate del: map_map)
  then have "distinct (map oidP (processPitchers_loop random rows []))"
    by simp
  then show ?thesis
    by (rule distinct_map [THEN iffD1, THEN conjunct1])
qed

lemma padStarters_dummies:
  "\<exists>ds. padStarters xs = xs @ ds \<and> list_all isPitcherPlaceholder ds"
proof (induction xs rule: padStarters.induct)
  case (1 finalStarters)
  let ?d = "PitcherDummy (''Starting Pitcher '' @ showNat (length finalStarters + 1))
              ''d4'' ''R'' (Fin 15) (Fin 20) []"
  show ?case
  proof (cases "length finalStarters < 5")
    case True
    then have step: "padStarters finalStarters = padStarters (finalStarters @ [?d])"
      by (subst padStarters.simps) simp
    from 1 [OF True] obtain ds
      where "padStarters (finalStarters @ [?d]) = (finalStarters @ [?d]) @ ds"
        and "list_all isPitcherPlaceholder ds"
      by blast
    with step have "padStarters finalStarters = finalStarters @ (?d # ds)
        \<and> list_all isPitcherPlaceholder (?d # ds)"
      by simp
    then show ?thesis
      by blast
  next
    case False
    then show ?thesis
      by (subst padStarters.simps) simp
  qed
qed

lemma padRelievers_dummies:
  "\<exists>ds. padRelievers xs = xs @ ds \<and> list_all isPitcherPlaceholder ds"
proof (induction xs rule: padRelievers.induct)
  case (1 finalRelievers)
  let ?d = "PitcherDummy (''Relief Pitcher '' @ showNat (length finalRelievers + 1))
              ''d4'' ''R'' (Fin 12) (Fin 18) []"
  show ?case
  proof (cases "length finalRelievers < 7")
    case True
    then have step: "padRelievers finalRelievers = padRelievers (finalRelievers @ [?d])"
      by (subst padRelievers.simps) simp
    from 1 [OF True] obtain ds
      where "padRelievers (finalRelievers @ [?d]) = (finalRelievers @ [?d]) @ ds"
        and "list_all isPitcherPlaceholder ds"
      by blast
    with step have "padRelievers finalRelievers = finalRelievers @ (?d # ds)
        \<and> list_all isPitcherPlaceholder (?d # ds)"
      by simp
    then show ?thesis
      by blast
  next
    case False
    then show ?thesis
      by (subst padRelievers.simps) simp
  qed
qed

lemma Pitcher_not_dummy: "list_all isPitcherPlaceholder ds \<Longrightarrow> Pitcher p \<notin> set ds"
  by (auto simp: list_all_iff)

lemma byIp_sub: "byIp = (\<lambda>a b. sub (ip b) (ip a))"
  by (simp add: byIp_def fun_eq_iff)

lemma startingPitchers_assemble:
  "startingPitchers (assemble random brows prows)
     = padStarters (map Pitcher (startersOf (processPitchers_loop random prows [])))"
  by (simp add: assemble_def Let_def)

lemma reliefPitchers_assemble:
  "reliefPitchers (assemble random brows prows)
     = padRelievers (map Pitcher (relieversOf (processPitchers_loop random prows [])))"
  by (simp add: assemble_def Let_def)

lemma drop_take_disjoint: "distinct xs \<Longrightarrow> x \<in> set (drop n xs) \<Longrightarrow> x \<notin> set (take n xs)"
  using set_take_disj_set_drop_if_distinct [of xs n n] by auto

text \<open>
  C5. Let \<open>P\<close> be the accepted pitchers. The starter-eligible pitchers of \<open>P\<close> (more than 5
  starts, or a game and more than half of the games started) have a stable descending
  sort by innings pitched, and so have the others. Whatever lists \<open>S\<close> and \<open>R\<close> are these
  two sorts, the starters of the roster are the first five of \<open>S\<close> and the relievers the
  first seven of \<open>R\<close>, each followed by placeholders only, and a pitcher behind the cut of
  its group is in neither roster list.
\<close>

theorem pitcher_split:
  "let P = processPitchers_loop random pitchingRows [];
       built = assemble random battingRows pitchingRows
   in (\<exists>S. stableDescending ip (filter starterEligible P) S)
      \<and> (\<exists>R. stableDescending ip (filter (\<lambda>p. \<not> starterEligible p) P) R)
      \<and> (\<forall>S R. stableDescending ip (filter starterEligible P) S
                 \<and> stableDescending ip (filter (\<lambda>p. \<not> starterEligible p) P) R
            \<longrightarrow> (\<exists>ds. startingPitchers built = map Pitcher (take 5 S) @ ds
                        \<and> list_all isPitcherPlaceholder ds)
                \<and> (\<exists>ds. reliefPitchers built = map Pitcher (take 7 R) @ ds
                        \<and> list_all isPitcherPlaceholder ds)
                \<and> (\<forall>p \<in> set (drop 5 S) \<union> set (drop 7 R).
                      Pitcher p \<notin> set (startingPitchers built) \<union> set (reliefPitchers built)))"
proof -
  define P where "P = processPitchers_loop random pitchingRows []"
  define built where "built = assemble random battingRows pitchingRows"
  let ?S = "sort_cmp byIp (filter isStarter P)"
  let ?R = "sort_cmp byIp (filter (\<lambda>p. \<not> isStarter p) P)"
  have keys: "\<forall>p \<in> set P. isDouble (ip p)"
    by (simp add: P_def processPitchers_ip)
  have sS: "stableDescending ip (filter starterEligible P) ?S"
    unfolding byIp_sub isStarter_eligible
    by (rule sort_cmp_stableDescending) (use keys in simp)
  have sR: "stableDescending ip (filter (\<lambda>p. \<not> starterEligible p) P) ?R"
    unfolding byIp_sub isStarter_eligible
    by (rule sort_cmp_stableDescending) (use keys in simp)
  have facts: "(\<exists>ds. startingPitchers built = map Pitcher (take 5 S) @ ds
        \<and> list_all isPitcherPlaceholder ds)
      \<and> (\<exists>ds. reliefPitchers built = map Pitcher (take 7 R) @ ds
        \<and> list_all isPitcherPlaceholder ds)
      \<and> (\<forall>p \<in> set (drop 5 S) \<union> set (drop 7 R).
            Pitcher p \<notin> set (startingPitchers built) \<union> set (reliefPitchers built))"
    if S: "stableDescending ip (filter starterEligible P) S"
      and R: "stableDescending ip (filter (\<lambda>p. \<not> starterEligible p) P) R" for S R
  proof -
    have "S = sort_cmp (\<lambda>a b. sub (ip b) (ip a)) (filter starterEligible P)"
      using S by (rule stableDescending_unique [rotated]) (use keys in simp)
    then have S_eq: "S = ?S"
      by (simp add: byIp_sub isStarter_eligible [abs_def])
    have "R = sort_cmp (\<lambda>a b. sub (ip b) (ip a)) (filter (\<lambda>p. \<not> starterEligible p) P)"
      using R by (rule stableDescending_unique [rotated]) (use keys in simp)
    then have R_eq: "R = ?R"
      by (simp add: byIp_sub isStarter_eligible [abs_def])
    obtain ds where ds: "startingPitchers built = map Pitcher (take 5 S) @ ds"
        "list_all isPitcherPlaceholder ds"
      using padStarters_dummies [of "map Pitcher (take 5 S)"]
      by (auto simp: built_def startingPitchers_assemble startersOf_def S_eq P_def)
    obtain es where es: "reliefPitchers built = map Pitcher (take 7 R) @ es"
        "list_all isPitcherPlaceholder es"
      using padRelievers_dummies [of "map Pitcher (take 7 R)"]
      by (auto simp: built_def reliefPitchers_assemble relieversOf_def R_eq P_def)
    have mS: "mset S = mset (filter starterEligible P)"
      and mR: "mset R = mset (filter (\<lambda>p. \<not> starterEligible p) P)"
      using S R by (simp_all add: stableDescending_def)
    have dP: "distinct P"
      by (simp add: P_def distinct_processPitchers)
    have dS: "distinct S"
      using mS dP by (metis distinct_filter mset_eq_imp_distinct_iff)
    have dR: "distinct R"
      using mR dP by (metis distinct_filter mset_eq_imp_distinct_iff)
    have setS: "set S = {p \<in> set P. starterEligible p}"
      and setR: "set R = {p \<in> set P. \<not> starterEligible p}"
      using mset_eq_setD [OF mS] mset_eq_setD [OF mR] by auto
    have cut: "Pitcher p \<notin> set (startingPitchers built) \<union> set (reliefPitchers built)"
      if "p \<in> set (drop 5 S) \<union> set (drop 7 R)" for p
    proof -
      have real: "Pitcher p \<in> set (startingPitchers built) \<union> set (reliefPitchers built)
          \<longleftrightarrow> p \<in> set (take 5 S) \<union> set (take 7 R)"
        using ds es by (auto simp: Pitcher_not_dummy)
      from that show ?thesis
      proof
        assume p: "p \<in> set (drop 5 S)"
        then have "p \<notin> set (take 5 S)"
          using dS by (rule drop_take_disjoint [rotated])
        moreover have "p \<in> set S"
          using p by (rule in_set_dropD)
        then have "p \<notin> set (take 7 R)"
          using setS setR by (auto dest: in_set_takeD)
        ultimately show ?thesis
          using real by simp
      next
        assume p: "p \<in> set (drop 7 R)"
        then have "p \<notin> set (take 7 R)"
          using dR by (rule drop_take_disjoint [rotated])
        moreover have "p \<in> set R"
          using p by (rule in_set_dropD)
        then have "p \<notin> set (take 5 S)"
          using setS setR by (auto dest: in_set_takeD)
        ultimately show ?thesis
          using real by simp
      qed
    qed
    show ?thesis
      using ds es cut by blast
  qed
  show ?thesis
    unfolding Let_def P_def [symmetric] built_def [symmetric]
    using sS sR facts by blast
qed

lemma mkPitcher_sel:
  "oidP (mkPitcher random i r) = i"
  "ip (mkPitcher random i r) = or0 (parseFloat (r ''IP''))"
  "starts (mkPitcher random i r) = or0 (parseInt (r ''GS''))"
  "gamesP (mkPitcher random i r) = or0 (parseInt (r ''G''))"
  by (simp_all add: mkPitcher_def)

text \<open>The comparison of two records of the program is the comparison of their innings.\<close>

lemma gt_byIp:
  "gt (byIp (mkPitcher random i x) (mkPitcher random j y)) (Fin 0)
     = lt (ip (mkPitcher random i x)) (ip (mkPitcher random j y))"
  by (simp add: byIp_def gt_sub ip_mkPitcher)

lemma starterRow_fields:
  "starterRow w n ''Player'' = Some w" "starterRow w n ''ERA'' = Some ''3.50''"
  "starterRow w n ''IP'' = Some n" "starterRow w n ''G'' = Some ''30''"
  "starterRow w n ''GS'' = Some ''30''"
  by (simp_all add: starterRow_def)

lemma closer_fields:
  "closer ''Player'' = Some ''Rivera''" "closer ''ERA'' = Some ''1.91''"
  "closer ''IP'' = Some ''70''" "closer ''G'' = Some ''64''" "closer ''GS'' = Some ''0''"
  by (simp_all add: closer_def)

lemma parsed_numbers:
  "parseFloat (Some ''150'') = Fin 150" "parseFloat (Some ''180'') = Fin 180"
  "parseFloat (Some ''120'') = Fin 120" "parseFloat (Some ''200'') = Fin 200"
  "parseFloat (Some ''90'') = Fin 90" "parseFloat (Some ''70'') = Fin 70"
  "parseInt (Some ''30'') = Fin 30" "parseInt (Some ''64'') = Fin 64"
  "parseInt (Some ''0'') = Fin 0"
  by (simp_all add: parse_defs Let_def round64_int)

lemma rotation_processed:
  "processPitchers_loop (\<lambda>_. 0) rotation []
   = [mkPitcher (\<lambda>_. 0) 0 (starterRow ''A'' ''150''), mkPitcher (\<lambda>_. 0) 1 (starterRow ''B'' ''180''),
      mkPitcher (\<lambda>_. 0) 2 (starterRow ''C'' ''120''), mkPitcher (\<lambda>_. 0) 3 (starterRow ''D'' ''180''),
      mkPitcher (\<lambda>_. 0) 4 (starterRow ''E'' ''200''), mkPitcher (\<lambda>_. 0) 5 (starterRow ''F'' ''90''),
      mkPitcher (\<lambda>_. 0) 6 closer]"
  by (simp add: rotation_def skipPitcher_def starterRow_fields closer_fields parsed_numbers
        falsy_def gt_def eval_nat_numeral)

lemma rotation_split:
  "isStarter (mkPitcher random i (starterRow w n))"
  "\<not> isStarter (mkPitcher random i closer)"
  by (simp_all add: isStarter_def mkPitcher_sel starterRow_fields closer_fields parsed_numbers
        or0_def gt_def round64_int)

lemma rotation_ip:
  "ip (mkPitcher random i (starterRow w ''150'')) = Fin 150"
  "ip (mkPitcher random i (starterRow w ''180'')) = Fin 180"
  "ip (mkPitcher random i (starterRow w ''120'')) = Fin 120"
  "ip (mkPitcher random i (starterRow w ''200'')) = Fin 200"
  "ip (mkPitcher random i (starterRow w ''90'')) = Fin 90"
  "ip (mkPitcher random i closer) = Fin 70"
  by (simp_all add: mkPitcher_sel starterRow_fields closer_fields parsed_numbers or0_def)

lemma rotation_sorted:
  "sort_cmp byIp (filter isStarter (processPitchers_loop (\<lambda>_. 0) rotation []))
   = [mkPitcher (\<lambda>_. 0) 4 (starterRow ''E'' ''200''), mkPitcher (\<lambda>_. 0) 1 (starterRow ''B'' ''180''),
      mkPitcher (\<lambda>_. 0) 3 (starterRow ''D'' ''180''), mkPitcher (\<lambda>_. 0) 0 (starterRow ''A'' ''150''),
      mkPitcher (\<lambda>_. 0) 2 (starterRow ''C'' ''120''), mkPitcher (\<lambda>_. 0) 5 (starterRow ''F'' ''90'')]"
  by (simp add: rotation_processed rotation_split sort_cmp_def gt_byIp rotation_ip)

lemma rotation_relief:
  "sort_cmp byIp (filter (\<lambda>p. \<not> isStarter p) (processPitchers_loop (\<lambda>_. 0) rotation []))
   = [mkPitcher (\<lambda>_. 0) 6 closer]"
  by (simp add: rotation_processed rotation_split sort_cmp_def)

theorem pitcher_split_witness:
  "stableDescending ip
     (filter starterEligible (processPitchers_loop (\<lambda>_. 0) rotation []))
     [mkPitcher (\<lambda>_. 0) 4 (starterRow ''E'' ''200''), mkPitcher (\<lambda>_. 0) 1 (starterRow ''B'' ''180''),
      mkPitcher (\<lambda>_. 0) 3 (starterRow ''D'' ''180''), mkPitcher (\<lambda>_. 0) 0 (starterRow ''A'' ''150''),
      mkPitcher (\<lambda>_. 0) 2 (starterRow ''C'' ''120''), mkPitcher (\<lambda>_. 0) 5 (starterRow ''F'' ''90'')]
   \<and> stableDescending ip
       (filter (\<lambda>p. \<not> starterEligible p) (processPitchers_loop (\<lambda>_. 0) rotation []))
       [mkPitcher (\<lambda>_. 0) 6 closer]
   \<and> Pitcher (mkPitcher (\<lambda>_. 0) 5 (starterRow ''F'' ''90''))
       \<notin> set (startingPitchers (assemble (\<lambda>_. 0) [catcher] rotation))
   \<and> Pitcher (mkPitcher (\<lambda>_. 0) 5 (starterRow ''F'' ''90''))
       \<notin> set (reliefPitchers (assemble (\<lambda>_. 0) [catcher] rotation))"
proof -
  let ?P = "processPitchers_loop (\<lambda>_. 0) rotation []"
  have keys: "\<forall>p \<in> set ?P. isDouble (ip p)"
    by (simp add: processPitchers_ip)
  have "stableDescending ip (filter starterEligible ?P) (sort_cmp byIp (filter isStarter ?P))"
    unfolding byIp_sub isStarter_eligible
    by (rule sort_cmp_stableDescending) (use keys in simp)
  then have S: "stableDescending ip (filter starterEligible ?P)
      [mkPitcher (\<lambda>_. 0) 4 (starterRow ''E'' ''200''), mkPitcher (\<lambda>_. 0) 1 (starterRow ''B'' ''180''),
       mkPitcher (\<lambda>_. 0) 3 (starterRow ''D'' ''180''), mkPitcher (\<lambda>_. 0) 0 (starterRow ''A'' ''150''),
       mkPitcher (\<lambda>_. 0) 2 (starterRow ''C'' ''120''), mkPitcher (\<lambda>_. 0) 5 (starterRow ''F'' ''90'')]"
    by (simp only: rotation_sorted)
  have "stableDescending ip (filter (\<lambda>p. \<not> starterEligible p) ?P)
      (sort_cmp byIp (filter (\<lambda>p. \<not> isStarter p) ?P))"
    unfolding byIp_sub isStarter_eligible
    by (rule sort_cmp_stableDescending) (use keys in simp)
  then have R: "stableDescending ip (filter (\<lambda>p. \<not> starterEligible p) ?P)
      [mkPitcher (\<lambda>_. 0) 6 closer]"
    by (simp only: rotation_relief)
  show ?thesis
    using pitcher_split [of "\<lambda>_. 0" rotation "[catcher]"] S R
    by (simp add: Let_def)
qed

section \<open>The lineup\<close>




lemma remove_by_oid:
  fixes pool :: "batter list"
  shows "distinct (map oid pool) \<Longrightarrow> x \<in> set pool
   \<Longrightarrow> filter (\<lambda>p. oid p \<noteq> oid x) pool = remove1 x pool \<and> x \<notin> set (remove1 x pool)"
proof (induction pool)
  case Nil
  then show ?case by simp
next
  case (Cons y ys)
  show ?case
  proof (cases "x = y")
    case True
    from True Cons.prems have "oid x \<notin> oid ` set ys"
      by simp
    then have "\<forall>p \<in> set ys. oid p \<noteq> oid x"
      by (metis imageI)
    then have "filter (\<lambda>p. oid p \<noteq> oid x) ys = ys"
      by (simp add: filter_id_conv)
    with True Cons.prems show ?thesis
      by auto
  next
    case False
    with Cons.prems have "oid y \<noteq> oid x"
      by auto
    with False Cons show ?thesis
      by auto
  qed
qed






lemma mkBatter_sel:
  "oid (mkBatter i r) = i"
  "position (mkBatter i r) = getPosition (r ''Pos'')"
  "war (mkBatter i r) = or0 (parseFloat (r ''WAR''))"
  by (simp_all add: mkBatter_def)

lemma example_batters:
  "war (mkBatter i firstBaseman) = Fin 8" "war (mkBatter i catcher) = Fin 3"
  "position (mkBatter i firstBaseman) = ''1B''" "position (mkBatter i catcher) = ''C''"
  by (simp_all add: mkBatter_sel firstBaseman_def catcher_def parse_defs Let_def or0_def
        getPosition_def falsy_def round64_int)



text \<open>The list that the program passes to the lineup loop is such a list.\<close>

lemma byWar_sub: "byWar = (\<lambda>a b. sub (war b) (war a))"
  by (simp add: byWar_def fun_eq_iff)

lemma war_processed: "b \<in> set (processBatters_loop rows []) \<Longrightarrow> isDouble (war b)"
  by (auto simp: processBatters_loop_acc mkBatter_sel isDouble_stat)

lemma map_oid_enumerate:
  "map oid (map (\<lambda>(i, r). mkBatter i r) (enumerate n rs)) = [n..<n + length rs]"
  by (induction rs arbitrary: n) (simp_all add: mkBatter_sel upt_rec)

lemma map_oid_processed:
  "map oid (processBatters_loop rows []) = [0..<length (filter (\<lambda>r. \<not> skipBatter r) rows)]"
  by (simp add: processBatters_loop_acc map_oid_enumerate del: map_map)

lemma ge_not_lt: "ge a b \<Longrightarrow> \<not> lt a b"
  by (cases a; cases b) (simp_all add: ge_def le_def)

lemma processed_batters_sorted:
  "warSorted (sort_cmp byWar (processBatters_loop rows []))
   \<and> distinct (map oid (sort_cmp byWar (processBatters_loop rows [])))"
proof -
  let ?P = "processBatters_loop rows []"
  have st: "stableDescending war ?P (sort_cmp byWar ?P)"
    unfolding byWar_sub by (rule sort_cmp_stableDescending) (simp add: war_processed)
  then have "sorted_wrt (\<lambda>a b. ge (war a) (war b)) (sort_cmp byWar ?P)"
    by (simp add: stableDescending_def)
  then have "warSorted (sort_cmp byWar ?P)"
    unfolding warSorted_def by (rule sorted_wrt_mono_rel [rotated]) (simp add: ge_not_lt)
  moreover have "mset (map oid (sort_cmp byWar ?P)) = mset (map oid ?P)"
    using st by (simp add: stableDescending_def)
  then have "distinct (map oid (sort_cmp byWar ?P))"
    using mset_eq_imp_distinct_iff [of "map oid (sort_cmp byWar ?P)" "map oid ?P"]
    by (simp add: map_oid_processed)
  ultimately show ?thesis
    by simp
qed

section \<open>Group sizes\<close>

lemma length_padBench: "length (padBench xs) = max 4 (length xs)"
proof (induction xs rule: padBench.induct)
  case (1 finalBench)
  show ?case
  proof (cases "length finalBench < 4")
    case True
    with 1 show ?thesis
      by (subst padBench.simps) simp
  next
    case False
    then show ?thesis
      by (subst padBench.simps) simp
  qed
qed

lemma length_padStarters: "length (padStarters xs) = max 5 (length xs)"
proof (induction xs rule: padStarters.induct)
  case (1 finalStarters)
  show ?case
  proof (cases "length finalStarters < 5")
    case True
    with 1 show ?thesis
      by (subst padStarters.simps) simp
  next
    case False
    then show ?thesis
      by (subst padStarters.simps) simp
  qed
qed

lemma length_padRelievers: "length (padRelievers xs) = max 7 (length xs)"
proof (induction xs rule: padRelievers.induct)
  case (1 finalRelievers)
  show ?case
  proof (cases "length finalRelievers < 7")
    case True
    with 1 show ?thesis
      by (subst padRelievers.simps) simp
  next
    case False
    then show ?thesis
      by (subst padRelievers.simps) simp
  qed
qed

lemma pitcher_groups_full:
  "length (startingPitchers (assemble random brows prows)) = 5
   \<and> length (reliefPitchers (assemble random brows prows)) = 7"
  by (simp add: startingPitchers_assemble reliefPitchers_assemble length_padStarters
        length_padRelievers startersOf_def relieversOf_def)

text \<open>A round with a batter left in the pool moves exactly one batter to the lineup.\<close>

lemma length_remove_by_oid:
  fixes pool :: "batter list"
  shows "distinct (map oid pool) \<Longrightarrow> x \<in> set pool
    \<Longrightarrow> Suc (length (filter (\<lambda>p. oid p \<noteq> oid x) pool)) = length pool"
  using remove_by_oid [of pool x] by (simp add: length_remove1) (metis Suc_pred length_pos_if_in_set)

lemma fillSlot_moves_one:
  assumes "distinct (map oid (snd st))" and "snd st \<noteq> []"
  shows "length (fst (fillSlot pos st)) = Suc (length (fst st))
    \<and> Suc (length (snd (fillSlot pos st))) = length (snd st)
    \<and> map position (fst (fillSlot pos st)) = map position (fst st) @ [pos]"
proof -
  obtain lineup pool where st: "st = (lineup, pool)"
    by (cases st)
  from assms have ids: "distinct (map oid pool)" and ne: "pool \<noteq> []"
    by (simp_all add: st)
  show ?thesis
  proof (cases "filter (\<lambda>p. position p = pos) pool")
    case (Cons first rest)
    then have fs: "fillSlot pos (lineup, pool)
        = (lineup @ [first], filter (\<lambda>p. oid p \<noteq> oid first) pool)"
      by (simp add: fillSlot_def Let_def)
    have "first \<in> set (filter (\<lambda>p. position p = pos) pool)"
      using Cons by simp
    then have "first \<in> set pool" and "position first = pos"
      by simp_all
    then show ?thesis
      using length_remove_by_oid [OF ids, of first] by (simp add: st fs)
  next
    case Nil
    show ?thesis
    proof (cases "find isUtility pool")
      case (Some u)
      then have fs: "fillSlot pos (lineup, pool)
          = (lineup @ [u\<lparr>position := pos\<rparr>], filter (\<lambda>p. oid p \<noteq> oid u) pool)"
        using Nil by (simp add: fillSlot_def Let_def)
      have "u \<in> set pool"
        using Some by (auto simp: find_Some_iff)
      then show ?thesis
        using length_remove_by_oid [OF ids, of u] by (simp add: st fs)
    next
      case None
      from ne obtain best others where pool: "pool = best # others"
        by (cases pool) auto
      then have "fillSlot pos (lineup, pool) = (lineup @ [best\<lparr>position := pos\<rparr>], others)"
        using Nil None by (simp add: fillSlot_def Let_def)
      then show ?thesis
        by (simp add: st pool)
    qed
  qed
qed

lemma fillSlot_empty: "snd st = [] \<Longrightarrow> fillSlot pos st = st"
  by (cases st) (simp add: fillSlot_def Let_def)

lemma fillLineup_empty_pool:
  "snd (fillLineup ps bs) = [] \<Longrightarrow> fillLineup (ps @ qs) bs = fillLineup ps bs"
  by (induction qs rule: rev_induct)
    (simp_all add: fillLineup_snoc fillSlot_empty flip: append_assoc)

lemma fillSlot_distinct:
  "distinct (map oid (snd st)) \<Longrightarrow> distinct (map oid (snd (fillSlot pos st)))"
  by (cases st)
    (auto simp: fillSlot_def Let_def distinct_map_filter split: list.splits option.splits)

lemma fillLineup_distinct:
  "distinct (map oid bs) \<Longrightarrow> distinct (map oid (snd (fillLineup ps bs)))"
proof (induction ps rule: rev_induct)
  case Nil
  then show ?case by (simp add: fillLineup_def)
next
  case (snoc pos ps)
  then show ?case
    using fillSlot_distinct [of "fillLineup ps bs" pos] by (simp add: fillLineup_snoc)
qed

lemma fillLineup_lengths:
  assumes "distinct (map oid bs)"
  shows "length (fst (fillLineup ps bs)) = min (length ps) (length bs)
    \<and> length (snd (fillLineup ps bs)) = length bs - min (length ps) (length bs)"
proof (induction ps rule: rev_induct)
  case Nil
  show ?case by (simp add: fillLineup_def)
next
  case (snoc pos ps)
  let ?st = "fillLineup ps bs"
  show ?case
  proof (cases "snd ?st = []")
    case True
    with snoc show ?thesis
      by (simp add: fillLineup_snoc fillSlot_empty; linarith?)
  next
    case False
    moreover have "distinct (map oid (snd ?st))"
      using assms by (rule fillLineup_distinct)
    ultimately have "length (fst (fillSlot pos ?st)) = Suc (length (fst ?st))
        \<and> Suc (length (snd (fillSlot pos ?st))) = length (snd ?st)"
      using fillSlot_moves_one [of ?st pos] by simp
    with snoc False show ?thesis
      by (simp add: fillLineup_snoc; linarith?)
  qed
qed


lemma length_insort_cmp: "length (insort_cmp cmp x xs) = Suc (length xs)"
  by (induction xs) simp_all

lemma length_sort_cmp: "length (sort_cmp cmp xs) = length xs"
  by (induction xs) (simp_all add: sort_cmp_def length_insort_cmp)

lemma length_processed:
  "length (processBatters_loop rows []) = length (filter (\<lambda>r. \<not> skipBatter r) rows)"
  by (simp add: processBatters_loop_acc)

lemma positionPlayers_assemble:
  "positionPlayers (assemble random brows prows)
     = map Batter (fst (fillLineup positions (sort_cmp byWar (processBatters_loop brows []))))
       @ padBench (map Batter
           (take 4 (snd (fillLineup positions (sort_cmp byWar (processBatters_loop brows []))))))"
  by (simp add: assemble_def Let_def)

text \<open>
  The length of \<open>positionPlayers\<close>: the bench is padded to four, the lineup is not padded.
\<close>

lemma length_positionPlayers:
  "length (positionPlayers (assemble random brows prows))
     = min 8 (length (filter (\<lambda>r. \<not> skipBatter r) brows)) + 4"
proof -
  let ?bs = "sort_cmp byWar (processBatters_loop brows [])"
  have "distinct (map oid ?bs)"
    using processed_batters_sorted by simp
  then have "length (fst (fillLineup positions ?bs)) = min (length positions) (length ?bs)"
    using fillLineup_lengths by blast
  then show ?thesis
    by (simp add: positionPlayers_assemble length_padBench length_sort_cmp length_processed
          positions_def)
qed

lemma fillLineup_positions:
  assumes "distinct (map oid bs)" and "length ps \<le> length bs"
  shows "map position (fst (fillLineup ps bs)) = ps"
  using assms(2)
proof (induction ps rule: rev_induct)
  case Nil
  show ?case by (simp add: fillLineup_def)
next
  case (snoc pos ps)
  let ?st = "fillLineup ps bs"
  have "length (snd ?st) = length bs - min (length ps) (length bs)"
    using fillLineup_lengths [OF assms(1)] by blast
  with snoc.prems have "snd ?st \<noteq> []"
    by auto
  moreover have "distinct (map oid (snd ?st))"
    using assms(1) by (rule fillLineup_distinct)
  ultimately have "map position (fst (fillSlot pos ?st)) = map position (fst ?st) @ [pos]"
    using fillSlot_moves_one [of ?st pos] by simp
  with snoc show ?case
    by (simp add: fillLineup_snoc)
qed

text \<open>With eight accepted batters or more, the first eight entries play the eight positions.\<close>

lemma full_lineup_positions:
  assumes "8 \<le> length (filter (\<lambda>r. \<not> skipBatter r) brows)"
  shows "map shownPosition (take 8 (positionPlayers (assemble random brows prows))) = positions"
proof -
  let ?bs = "sort_cmp byWar (processBatters_loop brows [])"
  have ids: "distinct (map oid ?bs)"
    using processed_batters_sorted by simp
  have len: "length positions \<le> length ?bs"
    using assms by (simp add: length_sort_cmp length_processed positions_def)
  have "length (fst (fillLineup positions ?bs)) = 8"
    using fillLineup_lengths [OF ids, of positions] len by (simp add: positions_def)
  then have "take 8 (positionPlayers (assemble random brows prows))
      = map Batter (fst (fillLineup positions ?bs))"
    by (simp add: positionPlayers_assemble)
  moreover have "map shownPosition (map Batter (fst (fillLineup positions ?bs)))
      = map position (fst (fillLineup positions ?bs))"
    by simp
  ultimately show ?thesis
    using fillLineup_positions [OF ids len] by simp
qed


text \<open>A batter is in the lineup or in the pool, never in both and never twice.\<close>

lemma mset_oid_remove:
  fixes pool :: "batter list"
  assumes "distinct (map oid pool)" and "x \<in> set pool"
  shows "add_mset (oid x) (mset (map oid (filter (\<lambda>p. oid p \<noteq> oid x) pool))) = mset (map oid pool)"
proof -
  have "filter (\<lambda>p. oid p \<noteq> oid x) pool = remove1 x pool"
    using remove_by_oid [OF assms] by simp
  moreover have "mset pool = add_mset x (mset (remove1 x pool))"
    using assms(2) by simp
  then have "image_mset oid (mset pool) = image_mset oid (add_mset x (mset (remove1 x pool)))"
    by simp
  ultimately show ?thesis
    by simp
qed

lemma fillSlot_oids:
  assumes "distinct (map oid (snd st))"
  shows "mset (map oid (fst (fillSlot pos st))) + mset (map oid (snd (fillSlot pos st)))
    = mset (map oid (fst st)) + mset (map oid (snd st))"
proof -
  obtain lineup pool where st: "st = (lineup, pool)"
    by (cases st)
  from assms have ids: "distinct (map oid pool)"
    by (simp add: st)
  show ?thesis
  proof (cases "filter (\<lambda>p. position p = pos) pool")
    case (Cons first rest)
    then have fs: "fillSlot pos (lineup, pool)
        = (lineup @ [first], filter (\<lambda>p. oid p \<noteq> oid first) pool)"
      by (simp add: fillSlot_def Let_def)
    have "first \<in> set (filter (\<lambda>p. position p = pos) pool)"
      using Cons by simp
    then have "first \<in> set pool"
      by simp
    then show ?thesis
      using mset_oid_remove [OF ids, of first] by (simp add: st fs)
  next
    case Nil
    show ?thesis
    proof (cases "find isUtility pool")
      case (Some u)
      then have fs: "fillSlot pos (lineup, pool)
          = (lineup @ [u\<lparr>position := pos\<rparr>], filter (\<lambda>p. oid p \<noteq> oid u) pool)"
        using Nil by (simp add: fillSlot_def Let_def)
      have "u \<in> set pool"
        using Some by (auto simp: find_Some_iff)
      then show ?thesis
        using mset_oid_remove [OF ids, of u] by (simp add: st fs)
    next
      case None
      show ?thesis
      proof (cases pool)
        case empty: Nil
        then show ?thesis
          by (simp add: st fillSlot_empty)
      next
        case (Cons best others)
        then have "fillSlot pos (lineup, pool) = (lineup @ [best\<lparr>position := pos\<rparr>], others)"
          using Nil None by (simp add: fillSlot_def Let_def)
        then show ?thesis
          by (simp add: st Cons)
      qed
    qed
  qed
qed

lemma fillLineup_oids:
  assumes "distinct (map oid bs)"
  shows "mset (map oid (fst (fillLineup ps bs))) + mset (map oid (snd (fillLineup ps bs)))
    = mset (map oid bs)"
proof (induction ps rule: rev_induct)
  case Nil
  show ?case by (simp add: fillLineup_def)
next
  case (snoc pos ps)
  have "distinct (map oid (snd (fillLineup ps bs)))"
    using assms by (rule fillLineup_distinct)
  then show ?case
    using fillSlot_oids [of "fillLineup ps bs" pos] snoc by (simp add: fillLineup_snoc)
qed

lemma padBench_dummies: "\<exists>ds. padBench xs = xs @ ds \<and> list_all isPlaceholder ds"
proof (induction xs rule: padBench.induct)
  case (1 finalBench)
  let ?d = "BenchDummy (''Bench Player '' @ showNat (length finalBench + 1))
              ''UT'' ''R'' (Fin 20) (Fin 25) []"
  show ?case
  proof (cases "length finalBench < 4")
    case True
    then have step: "padBench finalBench = padBench (finalBench @ [?d])"
      by (subst padBench.simps) simp
    from 1 [OF True] obtain ds
      where "padBench (finalBench @ [?d]) = (finalBench @ [?d]) @ ds"
        and "list_all isPlaceholder ds"
      by blast
    with step have "padBench finalBench = finalBench @ (?d # ds)
        \<and> list_all isPlaceholder (?d # ds)"
      by (simp add: isPlaceholder_def)
    then show ?thesis
      by blast
  next
    case False
    then show ?thesis
      by (subst padBench.simps) simp
  qed
qed

lemma map_filter_dummies: "list_all isPlaceholder ds \<Longrightarrow> List.map_filter batterOid ds = []"
  by (induction ds) (simp_all add: List.map_filter_simps isPlaceholder_def)

lemma map_filter_batters: "List.map_filter batterOid (map Batter bs) = map oid bs"
  by (induction bs) (simp_all add: List.map_filter_simps)

lemma map_filter_append: "List.map_filter f (xs @ ys) = List.map_filter f xs @ List.map_filter f ys"
  by (simp add: List.map_filter_def)

lemma distinct_append_take: "distinct (xs @ ys) \<Longrightarrow> distinct (xs @ take n ys)"
  by (auto dest: in_set_takeD)

text \<open>No object of the pool is behind two entries of \<open>positionPlayers\<close>.\<close>

lemma no_batter_twice:
  "distinct (List.map_filter batterOid (positionPlayers (assemble random brows prows)))"
proof -
  let ?bs = "sort_cmp byWar (processBatters_loop brows [])"
  let ?st = "fillLineup positions ?bs"
  have ids: "distinct (map oid ?bs)"
    using processed_batters_sorted by simp
  have "mset (map oid (fst ?st) @ map oid (snd ?st)) = mset (map oid ?bs)"
    using fillLineup_oids [OF ids, of positions] by simp
  then have "distinct (map oid (fst ?st) @ map oid (snd ?st))"
    using ids mset_eq_imp_distinct_iff by blast
  then have "distinct (map oid (fst ?st) @ take 4 (map oid (snd ?st)))"
    by (rule distinct_append_take)
  then have "distinct (map oid (fst ?st) @ map oid (take 4 (snd ?st)))"
    by (simp only: take_map)
  moreover obtain ds where "padBench (map Batter (take 4 (snd ?st))) = map Batter (take 4 (snd ?st)) @ ds"
      and "list_all isPlaceholder ds"
    using padBench_dummies by blast
  ultimately show ?thesis
    by (simp add: positionPlayers_assemble map_filter_append map_filter_batters map_filter_dummies)
qed


lemma padBench_Nil:
  "padBench [] = [BenchDummy ''Bench Player 1'' ''UT'' ''R'' (Fin 20) (Fin 25) [],
                  BenchDummy ''Bench Player 2'' ''UT'' ''R'' (Fin 20) (Fin 25) [],
                  BenchDummy ''Bench Player 3'' ''UT'' ''R'' (Fin 20) (Fin 25) [],
                  BenchDummy ''Bench Player 4'' ''UT'' ''R'' (Fin 20) (Fin 25) []]"
  by (simp add: padBench.simps showNat.simps)

lemma firstBaseman_accepted: "\<not> skipBatter firstBaseman"
  by (simp add: skipBatter_def firstBaseman_def falsy_def gt_def parse_defs Let_def round64_int)

lemma loaded_roster:
  "roster (generateRoster random (loaded (b # bs) (p # ps))) = assemble random (b # bs) (p # ps)"
  by (simp add: generateRoster_def inputMissing_def loaded_def initialState_def)

lemma one_catcher_lineup:
  "fillLineup positions (sort_cmp byWar (processBatters_loop [catcher] []))
     = ([mkBatter 0 catcher], [])"
  by (simp add: catcher_accepted sort_cmp_def positions_def fillLineup_def fillSlot_def
        example_batters mkBatter_sel(1) Let_def)

lemma one_firstBaseman_lineup:
  "fillLineup positions (sort_cmp byWar (processBatters_loop [firstBaseman] []))
     = ([(mkBatter 0 firstBaseman)\<lparr>position := ''C''\<rparr>], [])"
  by (simp add: firstBaseman_accepted sort_cmp_def positions_def fillLineup_def fillSlot_def
        isUtility_def example_batters mkBatter_sel(1) Let_def)

lemma one_catcher_positionPlayers:
  "positionPlayers (assemble random [catcher] prows) = Batter (mkBatter 0 catcher) # padBench []"
  unfolding positionPlayers_assemble one_catcher_lineup by simp

lemma one_firstBaseman_positionPlayers:
  "positionPlayers (assemble random [firstBaseman] prows)
     = Batter ((mkBatter 0 firstBaseman)\<lparr>position := ''C''\<rparr>) # padBench []"
  unfolding positionPlayers_assemble one_firstBaseman_lineup by simp

text \<open>
  C1 (the program at a failing input). The batting file holds one accepted row, a
  catcher, and the pitching file one row. The generated \<open>positionPlayers\<close> has five
  entries, the catcher and four bench placeholders, not twelve: the lineup loop adds
  nothing for a slot once the pool is empty, and only the bench and the two pitcher
  groups are padded (\<open>length_positionPlayers\<close>, \<open>pitcher_groups_full\<close>).
\<close>

theorem one_catcher_roster_short:
  "map isPlaceholder (positionPlayers (roster (generateRoster (\<lambda>_. 0) (loaded [catcher] [ace]))))
     = [False, True, True, True, True]
   \<and> length (positionPlayers (roster (generateRoster (\<lambda>_. 0) (loaded [catcher] [ace])))) = 5"
  by (simp add: loaded_roster one_catcher_positionPlayers padBench_Nil isPlaceholder_def)

text \<open>
  C2 (the program at a failing input). The batting file holds one accepted row, a first
  baseman. The first eight entries of \<open>positionPlayers\<close>, which the exports show as the
  lineup, have the positions \<open>C\<close>, \<open>UT\<close>, \<open>UT\<close>, \<open>UT\<close>, \<open>UT\<close>: one lineup slot and the four
  bench placeholders, not the eight field positions. With eight accepted batters or more
  the positions are the eight field positions (\<open>full_lineup_positions\<close>), and no batter is
  ever behind two entries (\<open>no_batter_twice\<close>).
\<close>

theorem one_batter_lineup_positions:
  "map shownPosition
     (take 8 (positionPlayers (roster (generateRoster (\<lambda>_. 0) (loaded [firstBaseman] [ace])))))
     = [''C'', ''UT'', ''UT'', ''UT'', ''UT'']"
  by (simp add: loaded_roster one_firstBaseman_positionPlayers padBench_Nil)

section \<open>The center field slot\<close>

text \<open>
  A round in which no batter of the pool has the position of the slot, with a batter left
  in the pool, appends a batter of the pool with its position set to the slot.
\<close>

lemma fillSlot_reassigns:
  assumes "\<forall>p \<in> set (snd st). position p \<noteq> pos" and "snd st \<noteq> []"
  shows "\<exists>x \<in> set (snd st). fst (fillSlot pos st) = fst st @ [x\<lparr>position := pos\<rparr>]"
proof -
  obtain lineup pool where st: "st = (lineup, pool)"
    by (cases st)
  from assms have none: "filter (\<lambda>p. position p = pos) pool = []" and ne: "pool \<noteq> []"
    by (simp_all add: st filter_empty_conv)
  show ?thesis
  proof (cases "find isUtility pool")
    case (Some u)
    then have "fst (fillSlot pos (lineup, pool)) = lineup @ [u\<lparr>position := pos\<rparr>]"
      using none by (simp add: fillSlot_def Let_def)
    moreover have "u \<in> set pool"
      using Some by (auto simp: find_Some_iff)
    ultimately show ?thesis
      by (auto simp: st)
  next
    case None
    from ne obtain best others where pool: "pool = best # others"
      by (cases pool) auto
    then have "fst (fillSlot pos (lineup, pool)) = lineup @ [best\<lparr>position := pos\<rparr>]"
      using none None by (simp add: fillSlot_def Let_def)
    then show ?thesis
      by (auto simp: st pool)
  qed
qed

lemma fillSlot_prefix: "\<exists>ys. fst (fillSlot pos st) = fst st @ ys"
  by (cases st) (auto simp: fillSlot_def Let_def split: list.splits option.splits)

text \<open>
  With seven accepted batters or more, the seventh entry of \<open>positionPlayers\<close> is a batter
  whose record had another position and was reassigned to \<open>CF\<close>.
\<close>

lemma center_field_round:
  assumes "7 \<le> length (filter (\<lambda>r. \<not> skipBatter r) brows)"
  shows "\<exists>x \<in> set (processBatters_loop brows []). position x \<noteq> ''CF''
    \<and> positionPlayers (assemble random brows prows) ! 6 = Batter (x\<lparr>position := ''CF''\<rparr>)"
proof -
  let ?bs = "sort_cmp byWar (processBatters_loop brows [])"
  let ?st = "fillLineup (take 6 positions) ?bs"
  have ids: "distinct (map oid ?bs)"
    using processed_batters_sorted by simp
  have len: "length ?bs = length (filter (\<lambda>r. \<not> skipBatter r) brows)"
    by (simp add: length_sort_cmp length_processed)
  have lens: "length (fst ?st) = 6" "length (snd ?st) = length ?bs - 6"
    using fillLineup_lengths [OF ids, of "take 6 positions"] assms len
    by (simp_all add: positions_def)
  then have ne: "snd ?st \<noteq> []"
    using assms len by auto
  have "\<forall>p \<in> set (snd ?st). position p \<noteq> ''CF''"
    using center_field_pool by blast
  then obtain x where x: "x \<in> set (snd ?st)"
      and seven: "fst (fillSlot ''CF'' ?st) = fst ?st @ [x\<lparr>position := ''CF''\<rparr>]"
    using fillSlot_reassigns [OF _ ne] by blast
  have "x \<in> set ?bs"
    using x fillLineup_pool_subset by blast
  then have mem: "x \<in> set (processBatters_loop brows [])"
    by (simp add: set_sort_cmp)
  have "positions = take 6 positions @ [''CF'', ''RF'']"
    by (simp add: positions_def)
  then have "fillLineup positions ?bs = fillSlot ''RF'' (fillSlot ''CF'' ?st)"
    by (metis fillLineup_def foldl_Cons foldl_Nil foldl_append)
  then obtain ys where "fst (fillLineup positions ?bs) = (fst ?st @ [x\<lparr>position := ''CF''\<rparr>]) @ ys"
    using fillSlot_prefix [of "''RF''" "fillSlot ''CF'' ?st"] seven by auto
  then have "fst (fillLineup positions ?bs) ! 6 = x\<lparr>position := ''CF''\<rparr>"
      and "6 < length (fst (fillLineup positions ?bs))"
    using lens(1) by (simp_all add: nth_append)
  then have "positionPlayers (assemble random brows prows) ! 6 = Batter (x\<lparr>position := ''CF''\<rparr>)"
    by (simp add: positionPlayers_assemble nth_append)
  with mem processed_not_CF [OF mem] show ?thesis
    by blast
qed

text \<open>With fewer than seven accepted batters, no entry of \<open>positionPlayers\<close> plays \<open>CF\<close>.\<close>

lemma few_batters_no_center_field:
  assumes "length (filter (\<lambda>r. \<not> skipBatter r) brows) < 7"
  shows "''CF'' \<notin> set (map shownPosition (positionPlayers (assemble random brows prows)))"
proof -
  let ?bs = "sort_cmp byWar (processBatters_loop brows [])"
  let ?n = "length ?bs"
  have ids: "distinct (map oid ?bs)"
    using processed_batters_sorted by simp
  have n: "?n < 7"
    using assms by (simp add: length_sort_cmp length_processed)
  then have short: "length (take ?n positions) = ?n"
    by (simp add: positions_def)
  have "length (snd (fillLineup (take ?n positions) ?bs)) = 0"
    using fillLineup_lengths [OF ids, of "take ?n positions"] short by simp
  then have "fillLineup (take ?n positions @ drop ?n positions) ?bs
      = fillLineup (take ?n positions) ?bs"
    by (intro fillLineup_empty_pool) simp
  then have all: "fillLineup positions ?bs = fillLineup (take ?n positions) ?bs"
    by simp
  have "map position (fst (fillLineup (take ?n positions) ?bs)) = take ?n positions"
    using short by (intro fillLineup_positions [OF ids]) simp
  moreover have "set (take ?n positions) \<subseteq> set (take 6 positions)"
    using n by (intro set_take_subset_set_take) simp
  then have "''CF'' \<notin> set (take ?n positions)"
    by (auto simp: positions_def)
  ultimately have lineup: "''CF'' \<notin> set (map position (fst (fillLineup positions ?bs)))"
    using all by simp
  have "snd (fillLineup positions ?bs) = []"
    using fillLineup_lengths [OF ids, of "take ?n positions"] short all by simp
  then have "positionPlayers (assemble random brows prows)
      = map Batter (fst (fillLineup positions ?bs)) @ padBench []"
    by (simp add: positionPlayers_assemble)
  then have "map shownPosition (positionPlayers (assemble random brows prows))
      = map position (fst (fillLineup positions ?bs)) @ [''UT'', ''UT'', ''UT'', ''UT'']"
    by (simp add: padBench_Nil comp_def)
  with lineup show ?thesis
    by simp
qed






end
